theory Spec2Isabelle
  imports Complex_Main
begin

section \<open>Aristochart v2: values, errors and user code\<close>

text \<open>
  The model follows \<^verbatim>\<open>src/Aristochart.v2.js\<close>. A number the program stores is an
  exact real: no rounding, no infinities. A value that the program stores in an object
  property is a \<open>jsval\<close>. The result of converting a stored value to a number is a
  \<open>jsnumber\<close>, where \<open>None\<close> is not-a-number; strings and objects never coerce to
  numbers here (\<open>to_number\<close> reads them as not-a-number).
\<close>

datatype jsval = Undefined | Null | Bool bool | Num real | Str string | Obj

fun truthy :: "jsval \<Rightarrow> bool" where
  "truthy Undefined = False"
| "truthy Null = False"
| "truthy (Bool b) = b"
| "truthy (Num r) = (r \<noteq> 0)"
| "truthy (Str s) = (s \<noteq> [])"
| "truthy Obj = True"

text \<open>\<^verbatim>\<open>v == undefined\<close> (loose equality): true of \<open>undefined\<close> and \<open>null\<close> only.\<close>

fun loosely_undefined :: "jsval \<Rightarrow> bool" where
  "loosely_undefined Undefined = True"
| "loosely_undefined Null = True"
| "loosely_undefined v = False"

type_synonym jsnumber = "real option"

fun to_number :: "jsval \<Rightarrow> jsnumber" where
  "to_number Undefined = None"
| "to_number Null = Some 0"
| "to_number (Bool b) = Some (if b then 1 else 0)"
| "to_number (Num r) = Some r"
| "to_number (Str s) = None"
| "to_number Obj = None"

text \<open>\<^verbatim>\<open>a - v\<close> for a number \<open>a\<close> and a stored value \<open>v\<close>.\<close>

definition js_minus :: "real \<Rightarrow> jsval \<Rightarrow> jsnumber" where
  "js_minus a v = (case to_number v of None \<Rightarrow> None | Some b \<Rightarrow> Some (a - b))"

text \<open>
  Functions supplied by the user of the library (completion callbacks, event handlers,
  render and init hooks) are opaque. A user function has an identity, which is what
  reference equality compares, and either returns or throws; each call is recorded in
  a trace. Whatever else its body does to the chart is outside the model.
\<close>

datatype userfn = Returns nat | Throws nat

fun throws :: "userfn \<Rightarrow> bool" where
  "throws (Returns n) = False"
| "throws (Throws n) = True"

type_synonym ref = nat

text \<open>
  What can be thrown: the errors \<^verbatim>\<open>Aristochart.Error\<close> raises, named after their
  messages, the TypeError of calling something that is not a function, and whatever a
  user function throws.
\<close>

datatype error =
    EasingMissing string
  | PropertyMissing string
  | PropertyNotNumber string
  | RenderMissing
  | EventsWithoutIsInside
  | InvalidLineData
  | TypeError
  | UserThrow userfn

text \<open>
  A call either returns or throws; both leave a state behind, since the program
  mutates its objects before a throw and never rolls back.
\<close>

datatype 's outcome = Returned 's | Thrown error 's

fun state_of :: "'s outcome \<Rightarrow> 's" where
  "state_of (Returned s) = s"
| "state_of (Thrown e s) = s"

fun returned :: "'s outcome \<Rightarrow> bool" where
  "returned (Returned s) = True"
| "returned (Thrown e s) = False"

fun and_then :: "'s outcome \<Rightarrow> ('s \<Rightarrow> 's outcome) \<Rightarrow> 's outcome" where
  "and_then (Returned s) f = f s"
| "and_then (Thrown e s) f = Thrown e s"

text \<open>
  \<^verbatim>\<open>Aristochart.Error = function(msg, error) { if(Aristochart.DEBUG) throw new Error(...) }\<close>.
  The global flag \<^verbatim>\<open>Aristochart.DEBUG\<close> (initially \<^verbatim>\<open>true\<close>) is the first argument.
\<close>

definition Aristochart_Error :: "bool \<Rightarrow> error \<Rightarrow> error + unit" where
  "Aristochart_Error DEBUG msg = (if DEBUG then Inl msg else Inr ())"

section \<open>Registry: add, remove, objectsUnder\<close>

text \<open>\<^verbatim>\<open>Array.prototype.indexOf\<close>: the first index holding the value, or -1.\<close>

fun indexOf_from :: "'a list \<Rightarrow> 'a \<Rightarrow> int \<Rightarrow> int" where
  "indexOf_from [] v k = -1"
| "indexOf_from (a # as) v k = (if a = v then k else indexOf_from as v (k + 1))"

definition indexOf :: "'a list \<Rightarrow> 'a \<Rightarrow> int" where
  "indexOf xs v = indexOf_from xs v 0"

text \<open>
  \<^verbatim>\<open>xs.splice(start, 1)\<close>: a negative start counts from the end (clamped at 0), a start
  past the end is the end; one element is deleted when there is one at that place.
\<close>

definition splice1 :: "'a list \<Rightarrow> int \<Rightarrow> 'a list" where
  "splice1 xs start =
     (let len = int (length xs);
          s = (if start < 0 then max (len + start) 0 else min start len)
      in take (nat s) xs @ drop (nat s + 1) xs)"

text \<open>\<^verbatim>\<open>remove: function(obj) { this.registry.splice(this.registry.indexOf(obj), 1); }\<close>\<close>

definition Registry_remove :: "ref list \<Rightarrow> ref \<Rightarrow> ref list" where
  "Registry_remove reg obj = splice1 reg (indexOf reg obj)"

datatype add_arg = One ref | Many "ref list"

fun Registry_add :: "ref list \<Rightarrow> add_arg \<Rightarrow> ref list" where
  "Registry_add reg (Many primitives) = reg @ primitives"
| "Registry_add reg (One p) = reg @ [p]"

section \<open>Easing table\<close>

text \<open>
  \<^verbatim>\<open>Aristochart.Easing\<close>: every entry is \<^verbatim>\<open>function (x, t, b, c, d)\<close>; \<open>x\<close> is never
  read (the caller passes \<^verbatim>\<open>undefined\<close>), so an entry is a function of \<open>t b c d\<close>. The
  assignments inside the expressions (\<^verbatim>\<open>t/=d\<close>, \<^verbatim>\<open>--t\<close>, \<^verbatim>\<open>t-=2\<close>, \<^verbatim>\<open>s*=1.525\<close>) are
  written as \<open>let\<close>, in evaluation order.
\<close>

type_synonym easingfn = "real \<Rightarrow> real \<Rightarrow> real \<Rightarrow> real \<Rightarrow> real"

definition easeInQuad :: easingfn where
  "easeInQuad t b c d = (let t1 = t / d in c * t1 * t1 + b)"

definition easeOutQuad :: easingfn where
  "easeOutQuad t b c d = (let t1 = t / d in - c * t1 * (t1 - 2) + b)"

definition easeInOutQuad :: easingfn where
  "easeInOutQuad t b c d =
     (let t1 = t / (d / 2) in
      if t1 < 1 then c / 2 * t1 * t1 + b
      else (let t2 = t1 - 1 in - c / 2 * (t2 * (t2 - 2) - 1) + b))"

definition easeInCubic :: easingfn where
  "easeInCubic t b c d = (let t1 = t / d in c * t1 * t1 * t1 + b)"

definition easeOutCubic :: easingfn where
  "easeOutCubic t b c d = (let t1 = t / d - 1 in c * (t1 * t1 * t1 + 1) + b)"

definition easeInOutCubic :: easingfn where
  "easeInOutCubic t b c d =
     (let t1 = t / (d / 2) in
      if t1 < 1 then c / 2 * t1 * t1 * t1 + b
      else (let t2 = t1 - 2 in c / 2 * (t2 * t2 * t2 + 2) + b))"

definition easeInQuart :: easingfn where
  "easeInQuart t b c d = (let t1 = t / d in c * t1 * t1 * t1 * t1 + b)"

definition easeOutQuart :: easingfn where
  "easeOutQuart t b c d = (let t1 = t / d - 1 in - c * (t1 * t1 * t1 * t1 - 1) + b)"

definition easeInOutQuart :: easingfn where
  "easeInOutQuart t b c d =
     (let t1 = t / (d / 2) in
      if t1 < 1 then c / 2 * t1 * t1 * t1 * t1 + b
      else (let t2 = t1 - 2 in - c / 2 * (t2 * t2 * t2 * t2 - 2) + b))"

definition easeInQuint :: easingfn where
  "easeInQuint t b c d = (let t1 = t / d in c * t1 * t1 * t1 * t1 * t1 + b)"

definition easeOutQuint :: easingfn where
  "easeOutQuint t b c d = (let t1 = t / d - 1 in c * (t1 * t1 * t1 * t1 * t1 + 1) + b)"

definition easeInOutQuint :: easingfn where
  "easeInOutQuint t b c d =
     (let t1 = t / (d / 2) in
      if t1 < 1 then c / 2 * t1 * t1 * t1 * t1 * t1 + b
      else (let t2 = t1 - 2 in c / 2 * (t2 * t2 * t2 * t2 * t2 + 2) + b))"

definition easeInSine :: easingfn where
  "easeInSine t b c d = - c * cos (t / d * (pi / 2)) + c + b"

definition easeOutSine :: easingfn where
  "easeOutSine t b c d = c * sin (t / d * (pi / 2)) + b"

definition easeInOutSine :: easingfn where
  "easeInOutSine t b c d = - c / 2 * (cos (pi * t / d) - 1) + b"

definition easeInExpo :: easingfn where
  "easeInExpo t b c d = (if t = 0 then b else c * (2 powr (10 * (t / d - 1))) + b)"

definition easeOutExpo :: easingfn where
  "easeOutExpo t b c d = (if t = d then b + c else c * (- (2 powr (- 10 * t / d)) + 1) + b)"

definition easeInOutExpo :: easingfn where
  "easeInOutExpo t b c d =
     (if t = 0 then b
      else if t = d then b + c
      else (let t1 = t / (d / 2) in
            if t1 < 1 then c / 2 * (2 powr (10 * (t1 - 1))) + b
            else (let t2 = t1 - 1 in c / 2 * (- (2 powr (- 10 * t2)) + 2) + b)))"

definition easeInCirc :: easingfn where
  "easeInCirc t b c d = (let t1 = t / d in - c * (sqrt (1 - t1 * t1) - 1) + b)"

definition easeOutCirc :: easingfn where
  "easeOutCirc t b c d = (let t1 = t / d - 1 in c * sqrt (1 - t1 * t1) + b)"

definition easeInOutCirc :: easingfn where
  "easeInOutCirc t b c d =
     (let t1 = t / (d / 2) in
      if t1 < 1 then - c / 2 * (sqrt (1 - t1 * t1) - 1) + b
      else (let t2 = t1 - 2 in c / 2 * (sqrt (1 - t2 * t2) + 1) + b))"

text \<open>
  The elastic entries start from \<^verbatim>\<open>var s=1.70158; var p=0; var a=c;\<close>. \<^verbatim>\<open>if (!p)\<close> is
  therefore always taken, and \<^verbatim>\<open>a < Math.abs(c)\<close> compares \<open>c\<close> with its own absolute
  value; both branches are kept as written. \<open>elastic_s\<close> is the value of \<open>s\<close> they leave.
\<close>

definition elastic_s :: "real \<Rightarrow> real \<Rightarrow> real" where
  "elastic_s c p =
     (let a = c in
      if a < \<bar>c\<bar> then p / 4 else p / (2 * pi) * arcsin (c / a))"

definition easeInElastic :: easingfn where
  "easeInElastic t b c d =
     (if t = 0 then b
      else (let t1 = t / d in
            if t1 = 1 then b + c
            else (let p = d * 0.3; a = c; s = elastic_s c p; t2 = t1 - 1 in
                  - (a * (2 powr (10 * t2)) * sin ((t2 * d - s) * (2 * pi) / p)) + b)))"

definition easeOutElastic :: easingfn where
  "easeOutElastic t b c d =
     (if t = 0 then b
      else (let t1 = t / d in
            if t1 = 1 then b + c
            else (let p = d * 0.3; a = c; s = elastic_s c p in
                  a * (2 powr (- 10 * t1)) * sin ((t1 * d - s) * (2 * pi) / p) + c + b)))"

definition easeInOutElastic :: easingfn where
  "easeInOutElastic t b c d =
     (if t = 0 then b
      else (let t1 = t / (d / 2) in
            if t1 = 2 then b + c
            else (let p = d * (0.3 * 1.5); a = c; s = elastic_s c p in
                  if t1 < 1 then
                    (let t2 = t1 - 1 in
                     - 0.5 * (a * (2 powr (10 * t2)) * sin ((t2 * d - s) * (2 * pi) / p)) + b)
                  else
                    (let t2 = t1 - 1 in
                     a * (2 powr (- 10 * t2)) * sin ((t2 * d - s) * (2 * pi) / p) * 0.5 + c + b))))"

text \<open>The back entries are called without their sixth argument, so \<open>s\<close> is 1.70158.\<close>

definition easeInBack :: easingfn where
  "easeInBack t b c d =
     (let s = 1.70158; t1 = t / d in c * t1 * t1 * ((s + 1) * t1 - s) + b)"

definition easeOutBack :: easingfn where
  "easeOutBack t b c d =
     (let s = 1.70158; t1 = t / d - 1 in c * (t1 * t1 * ((s + 1) * t1 + s) + 1) + b)"

definition easeInOutBack :: easingfn where
  "easeInOutBack t b c d =
     (let s = 1.70158; t1 = t / (d / 2) in
      if t1 < 1 then
        (let s1 = s * 1.525 in c / 2 * (t1 * t1 * ((s1 + 1) * t1 - s1)) + b)
      else
        (let t2 = t1 - 2; s1 = s * 1.525 in c / 2 * (t2 * t2 * ((s1 + 1) * t2 + s1) + 2) + b))"

definition easeOutBounce :: easingfn where
  "easeOutBounce t b c d =
     (let t1 = t / d in
      if t1 < 1 / 2.75 then c * (7.5625 * t1 * t1) + b
      else if t1 < 2 / 2.75 then
        (let t2 = t1 - 1.5 / 2.75 in c * (7.5625 * t2 * t2 + 0.75) + b)
      else if t1 < 2.5 / 2.75 then
        (let t2 = t1 - 2.25 / 2.75 in c * (7.5625 * t2 * t2 + 0.9375) + b)
      else
        (let t2 = t1 - 2.625 / 2.75 in c * (7.5625 * t2 * t2 + 0.984375) + b))"

definition easeInBounce :: easingfn where
  "easeInBounce t b c d = c - easeOutBounce (d - t) 0 c d + b"

definition easeInOutBounce :: easingfn where
  "easeInOutBounce t b c d =
     (if t < d / 2 then easeInBounce (t * 2) 0 c d * 0.5 + b
      else easeOutBounce (t * 2 - d) 0 c d * 0.5 + c * 0.5 + b)"

definition Easing_table :: "(string \<times> easingfn) list" where
  "Easing_table =
     [(''easeInQuad'', easeInQuad), (''easeOutQuad'', easeOutQuad),
      (''easeInOutQuad'', easeInOutQuad),
      (''easeInCubic'', easeInCubic), (''easeOutCubic'', easeOutCubic),
      (''easeInOutCubic'', easeInOutCubic),
      (''easeInQuart'', easeInQuart), (''easeOutQuart'', easeOutQuart),
      (''easeInOutQuart'', easeInOutQuart),
      (''easeInQuint'', easeInQuint), (''easeOutQuint'', easeOutQuint),
      (''easeInOutQuint'', easeInOutQuint),
      (''easeInSine'', easeInSine), (''easeOutSine'', easeOutSine),
      (''easeInOutSine'', easeInOutSine),
      (''easeInExpo'', easeInExpo), (''easeOutExpo'', easeOutExpo),
      (''easeInOutExpo'', easeInOutExpo),
      (''easeInCirc'', easeInCirc), (''easeOutCirc'', easeOutCirc),
      (''easeInOutCirc'', easeInOutCirc),
      (''easeInElastic'', easeInElastic), (''easeOutElastic'', easeOutElastic),
      (''easeInOutElastic'', easeInOutElastic),
      (''easeInBack'', easeInBack), (''easeOutBack'', easeOutBack),
      (''easeInOutBack'', easeInOutBack),
      (''easeInBounce'', easeInBounce), (''easeOutBounce'', easeOutBounce),
      (''easeInOutBounce'', easeInOutBounce)]"

text \<open>
  \<^verbatim>\<open>Aristochart.Easing[name]\<close> for a name that is not a member of \<^verbatim>\<open>Object.prototype\<close>:
  the table's entry, or \<open>None\<close> for \<^verbatim>\<open>undefined\<close>. The table is an object literal, so
  in the source a lookup of \<^verbatim>\<open>toString\<close>, \<^verbatim>\<open>constructor\<close> and the other inherited
  names (\<open>inherited_member\<close> below) finds the inherited member, a truthy value that is no
  easing function; \<open>Easing\<close> does not describe these lookups, and every statement
  about a call of \<^verbatim>\<open>animate\<close> that names an easing excludes these names.
\<close>

definition Easing :: "string \<Rightarrow> easingfn option" where
  "Easing name = map_of Easing_table name"

section \<open>Primitive: animation tasks, animate, update, render\<close>

text \<open>
  One entry of \<^verbatim>\<open>animationBuffer\<close>, as \<^verbatim>\<open>animate\<close> pushes it. \<open>length_anim\<close> and
  \<open>range_anim\<close> are the source's \<^verbatim>\<open>length\<close> and \<^verbatim>\<open>range\<close>. The entry's own \<^verbatim>\<open>update\<close>
  member is the same function in every entry and is \<open>animation_update\<close> below.
\<close>

record animation =
  frame :: real
  length_anim :: real
  callback :: "userfn option"
  property :: string
  initialValue :: real
  range_anim :: real
  easing :: easingfn

text \<open>\<^verbatim>\<open>update: function(frame, prop, value) { this[prop] = value; }\<close>\<close>

definition animation_update ::
  "(string \<Rightarrow> jsval) \<Rightarrow> real \<Rightarrow> string \<Rightarrow> real \<Rightarrow> (string \<Rightarrow> jsval)" where
  "animation_update this frm prop v = this(prop := Num v)"

text \<open>
  A primitive instance. \<open>props this k\<close> is what \<^verbatim>\<open>this[k]\<close> reads: the data properties
  by name (\<^verbatim>\<open>x\<close>, \<^verbatim>\<open>y\<close>, \<^verbatim>\<open>alpha\<close>, \<^verbatim>\<open>mouseEnabled\<close>, \<^verbatim>\<open>_mouseover\<close>, ...), \<open>Undefined\<close>
  for a name the instance does not have. \<open>isInside\<close> and \<open>render\<close> are the members the
  definition object supplied, \<open>None\<close> when it supplied none; \<open>isInside\<close> reads
  \<^verbatim>\<open>this\<close> through its first argument. The drawing context \<^verbatim>\<open>this.ctx\<close> is present, and
  the calls made on it go to the trace.
\<close>

record primitive =
  props :: "string \<Rightarrow> jsval"
  animationBuffer :: "animation list"
  events :: "(string \<times> userfn) list"
  isInside :: "((string \<Rightarrow> jsval) \<Rightarrow> jsnumber \<Rightarrow> jsnumber \<Rightarrow> bool) option"
  render :: "userfn option"

text \<open>
  What user code and the canvas see, in order. \<open>called\<close> is the \<^verbatim>\<open>called\<close> member
  that \<^verbatim>\<open>Primitive.prototype.update\<close> sets on a callback function object.
\<close>

datatype call =
    Completion ref userfn
  | Handler string ref userfn
  | Init ref userfn
  | Render ref userfn
  | CtxSave
  | CtxTranslate jsval jsval
  | CtxRotate jsval
  | CtxScale jsval jsval
  | CtxAlpha jsval
  | CtxRestore

record env =
  called :: "userfn \<Rightarrow> bool"
  trace :: "call list"

datatype callback_arg = CbUndefined | CbFunction userfn | CbString string

text \<open>
  The value of \<^verbatim>\<open>easing\<close> after the first line of \<^verbatim>\<open>animate\<close>: the fourth argument
  as passed, or \<^verbatim>\<open>new String(callback)\<close> when the third argument is a string. A String
  object is truthy even when empty.
\<close>

datatype easing_arg = EasingUndefined | EasingString string | EasingStringObject string

fun easing_truthy :: "easing_arg \<Rightarrow> bool" where
  "easing_truthy EasingUndefined = False"
| "easing_truthy (EasingString s) = (s \<noteq> [])"
| "easing_truthy (EasingStringObject s) = True"

fun easing_key :: "easing_arg \<Rightarrow> string" where
  "easing_key EasingUndefined = ''undefined''"
| "easing_key (EasingString s) = s"
| "easing_key (EasingStringObject s) = s"

text \<open>
  The body of \<^verbatim>\<open>for(var prop in properties)\<close>. \<open>properties\<close> lists the object's keys in
  enumeration order with their target values.
\<close>

fun animate_loop ::
  "bool \<Rightarrow> (string \<times> real) list \<Rightarrow> real \<Rightarrow> userfn option \<Rightarrow> easingfn
     \<Rightarrow> primitive \<Rightarrow> primitive outcome" where
  "animate_loop DEBUG [] frames cb ease this = Returned this"
| "animate_loop DEBUG ((prop, target) # rest) frames cb ease this =
     (if loosely_undefined (props this prop) then
        (case Aristochart_Error DEBUG (PropertyMissing prop) of
           Inl e \<Rightarrow> Thrown e this
         | Inr u \<Rightarrow> animate_loop DEBUG rest frames cb ease this)
      else
        (case props this prop of
           Num current \<Rightarrow>
             animate_loop DEBUG rest frames cb ease
               (this\<lparr>animationBuffer := animationBuffer this @
                  [\<lparr>frame = frames, length_anim = frames, callback = cb, property = prop,
                    initialValue = current, range_anim = target - current, easing = ease\<rparr>]\<rparr>)
         | v \<Rightarrow>
           (case Aristochart_Error DEBUG (PropertyNotNumber prop) of
              Inl e \<Rightarrow> Thrown e this
            | Inr u \<Rightarrow> animate_loop DEBUG rest frames cb ease this)))"

text \<open>
  The first line of \<^verbatim>\<open>animate\<close>:
  \<^verbatim>\<open>if(typeof callback == "string") easing = new String(callback), callback = undefined;\<close>
\<close>

definition easing_given :: "callback_arg \<Rightarrow> string option \<Rightarrow> easing_arg" where
  "easing_given callback_in easing_in =
     (case callback_in of
        CbString s \<Rightarrow> EasingStringObject s
      | _ \<Rightarrow> (case easing_in of None \<Rightarrow> EasingUndefined | Some s \<Rightarrow> EasingString s))"

definition callback_given :: "callback_arg \<Rightarrow> userfn option" where
  "callback_given callback_in = (case callback_in of CbFunction f \<Rightarrow> Some f | _ \<Rightarrow> None)"

text \<open>\<^verbatim>\<open>Aristochart.Easing[easing] || Aristochart.Easing.easeInQuad\<close>\<close>

definition easing_or_default :: "easing_arg \<Rightarrow> easingfn" where
  "easing_or_default e = (case Easing (easing_key e) of Some f \<Rightarrow> f | None \<Rightarrow> easeInQuad)"

definition animate ::
  "bool \<Rightarrow> (string \<times> real) list \<Rightarrow> real \<Rightarrow> callback_arg \<Rightarrow> string option
     \<Rightarrow> primitive \<Rightarrow> primitive outcome" where
  "animate DEBUG properties frames callback_in easing_in this =
     (let easing1 = easing_given callback_in easing_in;
          callback1 = callback_given callback_in
      in case (if easing_truthy easing1 \<and> Easing (easing_key easing1) = None
               then Aristochart_Error DEBUG (EasingMissing (easing_key easing1))
               else Inr ()) of
           Inl e \<Rightarrow> Thrown e this
         | Inr u \<Rightarrow>
             animate_loop DEBUG properties frames callback1 (easing_or_default easing1) this)"

text \<open>
  The loop of \<^verbatim>\<open>Primitive.prototype.update\<close> over the old buffer. \<open>seen\<close> are the
  entries already visited, as the loop left them (\<^verbatim>\<open>animation.frame--\<close> mutates the
  entry in place), \<open>newBuffer\<close> is the source's \<^verbatim>\<open>newBuffer\<close>. When a callback throws,
  \<^verbatim>\<open>this.animationBuffer = newBuffer\<close> is never reached and the old array stays.
\<close>

fun update_loop ::
  "ref \<Rightarrow> animation list \<Rightarrow> animation list \<Rightarrow> animation list \<Rightarrow> (string \<Rightarrow> jsval) \<Rightarrow> env
     \<Rightarrow> (animation list \<times> (string \<Rightarrow> jsval) \<times> env) outcome" where
  "update_loop r [] seen newBuffer this e = Returned (newBuffer, this, e)"
| "update_loop r (a # rest) seen newBuffer this e =
     (if frame a \<noteq> 0 then
        (let v = easing a ((length_anim a - frame a) + 1) 0 (range_anim a) (length_anim a);
             this1 = animation_update this (length_anim a - frame a) (property a)
                       (initialValue a + v);
             a1 = a\<lparr>frame := frame a - 1\<rparr>
         in update_loop r rest (seen @ [a1]) (newBuffer @ [a1]) this1 e)
      else
        (case callback a of
           None \<Rightarrow> update_loop r rest (seen @ [a]) newBuffer this e
         | Some f \<Rightarrow>
             if called e f then update_loop r rest (seen @ [a]) newBuffer this e
             else
               (let e1 = e\<lparr>trace := trace e @ [Completion r f]\<rparr> in
                if throws f then Thrown (UserThrow f) (seen @ a # rest, this, e1)
                else update_loop r rest (seen @ [a]) newBuffer this
                       (e1\<lparr>called := (called e1)(f := True)\<rparr>))))"

definition Primitive_update :: "ref \<Rightarrow> primitive \<Rightarrow> env \<Rightarrow> (primitive \<times> env) outcome" where
  "Primitive_update r this e =
     (if animationBuffer this \<noteq> [] then
        (case update_loop r (animationBuffer this) [] [] (props this) e of
           Returned (newBuffer, ps, e1) \<Rightarrow>
             Returned (this\<lparr>props := ps, animationBuffer := newBuffer\<rparr>, e1)
         | Thrown err (buf, ps, e1) \<Rightarrow>
             Thrown err (this\<lparr>props := ps, animationBuffer := buf\<rparr>, e1))
      else Returned (this, e))"

text \<open>
  \<^verbatim>\<open>Primitive.prototype.render\<close>: save, translate, rotate, scale, alpha, the
  definition's render, restore. There is no \<^verbatim>\<open>try\<close>: a throwing render skips restore.
\<close>

definition Primitive_render :: "ref \<Rightarrow> primitive \<Rightarrow> env \<Rightarrow> (primitive \<times> env) outcome" where
  "Primitive_render r this e =
     (let e1 = e\<lparr>trace := trace e @
                  [CtxSave,
                   CtxTranslate (props this ''x'') (props this ''y''),
                   CtxRotate (props this ''rotation''),
                   CtxScale (props this ''scale'') (props this ''scale''),
                   CtxAlpha (props this ''alpha'')]\<rparr>
      in case render this of
           None \<Rightarrow> Thrown TypeError (this, e1)
         | Some f \<Rightarrow>
             (let e2 = e1\<lparr>trace := trace e1 @ [Render r f]\<rparr> in
              if throws f then Thrown (UserThrow f) (this, e2)
              else Returned (this, e2\<lparr>trace := trace e2 @ [CtxRestore]\<rparr>)))"

section \<open>Primitive definitions and construction\<close>

text \<open>
  The object handed to \<^verbatim>\<open>Aristochart.Primitive(style, obj)\<close> and the constructor it
  returns, which closes over \<open>style\<close> and \<open>obj\<close>. Style and data are flat lists of
  properties; \<^verbatim>\<open>getBoundingBox\<close> is passed through untouched and left out.
\<close>

record definition_obj =
  obj_render :: "userfn option"
  obj_isInside :: "((string \<Rightarrow> jsval) \<Rightarrow> jsnumber \<Rightarrow> jsnumber \<Rightarrow> bool) option"
  obj_init :: "userfn option"
  obj_events :: "(string \<times> userfn) list option"

record kind =
  kind_style :: "(string \<times> jsval) list option"
  kind_obj :: definition_obj

definition Aristochart_Primitive ::
  "bool \<Rightarrow> (string \<times> jsval) list option \<Rightarrow> definition_obj \<Rightarrow> error + kind" where
  "Aristochart_Primitive DEBUG style obj =
     (case (if obj_render obj = None then Aristochart_Error DEBUG RenderMissing else Inr ()) of
        Inl e \<Rightarrow> Inl e
      | Inr u \<Rightarrow>
        (case (if obj_events obj \<noteq> None \<and> obj_isInside obj = None
               then Aristochart_Error DEBUG EventsWithoutIsInside else Inr ()) of
           Inl e \<Rightarrow> Inl e
         | Inr u \<Rightarrow> Inr \<lparr>kind_style = style, kind_obj = obj\<rparr>))"

text \<open>
  \<^verbatim>\<open>Aristochart._deepMerge(options, this)\<close> on flat properties: each key of \<open>options\<close>
  is written over the instance's.
\<close>

fun deepMerge :: "(string \<times> jsval) list \<Rightarrow> (string \<Rightarrow> jsval) \<Rightarrow> (string \<Rightarrow> jsval)" where
  "deepMerge [] this = this"
| "deepMerge ((k, v) # rest) this = deepMerge rest (this(k := v))"

text \<open>\<^verbatim>\<open>!Object.keys(this.events)[0]\<close>: no key, or a first key that is the empty string.\<close>

fun no_first_key :: "(string \<times> userfn) list \<Rightarrow> bool" where
  "no_first_key [] = True"
| "no_first_key ((k, f) # rest) = (k = [])"

definition Primitive_defaults :: "string \<Rightarrow> jsval" where
  "Primitive_defaults =
     (\<lambda>k. Undefined)
       (''index'' := Num 0, ''visible'' := Bool True, ''static'' := Bool False,
        ''mouseEnabled'' := Bool True, ''alpha'' := Num 1, ''rotation'' := Num 0,
        ''scale'' := Num 1)"

definition Primitive_new ::
  "kind \<Rightarrow> (string \<times> jsval) list option \<Rightarrow> ref \<Rightarrow> env \<Rightarrow> (primitive \<times> env) outcome" where
  "Primitive_new k data r e =
     (let obj = kind_obj k;
          evs = (case obj_events obj of None \<Rightarrow> [] | Some es \<Rightarrow> es);
          ps1 = (if no_first_key evs then Primitive_defaults(''mouseEnabled'' := Bool False)
                 else Primitive_defaults);
          ps2 = (case data of None \<Rightarrow> ps1 | Some d \<Rightarrow> deepMerge d ps1);
          this2 = \<lparr>props = ps2, animationBuffer = [], events = evs,
                   isInside = obj_isInside obj, render = obj_render obj\<rparr>;
          styled = (\<lambda>this. case kind_style k of
                              None \<Rightarrow> this
                            | Some st \<Rightarrow> this\<lparr>props := deepMerge st (props this)\<rparr>)
      in case obj_init obj of
           None \<Rightarrow> Returned (styled this2, e)
         | Some f \<Rightarrow>
             (let e1 = e\<lparr>trace := trace e @ [Init r f]\<rparr> in
              if throws f then Thrown (UserThrow f) (this2, e1)
              else Returned (styled this2, e1)))"

section \<open>The chart: registry queries, pointer dispatch, engine\<close>

text \<open>
  The chart's mutable state. Primitives are objects shared by reference between the
  registry and the hover buffer, so they live in \<open>heap\<close> and the two arrays hold
  references. \<open>prev_mouseX\<close> and \<open>prev_mouseY\<close> are the source's \<^verbatim>\<open>_mouseX\<close> and
  \<^verbatim>\<open>_mouseY\<close>; \<open>running\<close> is the engine's flag and \<open>scheduled\<close> counts the ticks
  handed to \<^verbatim>\<open>requestAnimFrame\<close> that the host has not run yet.
\<close>

record chart =
  registry :: "ref list"
  mouseBuffer :: "ref list"
  mouseX :: real
  mouseY :: real
  prev_mouseX :: real
  prev_mouseY :: real
  heap :: "ref \<Rightarrow> primitive"
  cenv :: env
  running :: bool
  scheduled :: nat

text \<open>
  \<^verbatim>\<open>objectsUnder\<close>: the loop pushes every primitive whose \<^verbatim>\<open>isInside\<close> answers true.
  Calling the \<^verbatim>\<open>isInside\<close> of a primitive that has none is a TypeError.
\<close>

fun objectsUnder_loop ::
  "(ref \<Rightarrow> primitive) \<Rightarrow> ref list \<Rightarrow> real \<Rightarrow> real \<Rightarrow> ref list \<Rightarrow> error + ref list" where
  "objectsUnder_loop h [] x y found = Inr found"
| "objectsUnder_loop h (r # rest) x y found =
     (case isInside (h r) of
        None \<Rightarrow> Inl TypeError
      | Some inside \<Rightarrow>
          objectsUnder_loop h rest x y
            (if inside (props (h r)) (js_minus x (props (h r) ''x''))
                  (js_minus y (props (h r) ''y''))
             then found @ [r] else found))"

definition objectsUnder :: "(ref \<Rightarrow> primitive) \<Rightarrow> ref list \<Rightarrow> real \<Rightarrow> real \<Rightarrow> error + ref list" where
  "objectsUnder h reg x y = objectsUnder_loop h reg x y []"

text \<open>\<^verbatim>\<open>if(primitive.events.NAME) primitive.events.NAME.call(primitive)\<close>\<close>

definition fire :: "string \<Rightarrow> ref \<Rightarrow> chart \<Rightarrow> chart outcome" where
  "fire name r c =
     (case map_of (events (heap c r)) name of
        None \<Rightarrow> Returned c
      | Some f \<Rightarrow>
          (let c1 = c\<lparr>cenv := (cenv c)\<lparr>trace := trace (cenv c) @ [Handler name r f]\<rparr>\<rparr> in
           if throws f then Thrown (UserThrow f) c1 else Returned c1))"

definition set_mouseover :: "ref \<Rightarrow> bool \<Rightarrow> chart \<Rightarrow> chart" where
  "set_mouseover r b c =
     c\<lparr>heap := (heap c)(r := (heap c r)\<lparr>props := (props (heap c r))(''_mouseover'' := Bool b)\<rparr>)\<rparr>"

text \<open>The click listener installed by the constructor.\<close>

fun click_loop :: "ref list \<Rightarrow> chart \<Rightarrow> chart outcome" where
  "click_loop [] c = Returned c"
| "click_loop (r # rest) c = and_then (fire ''click'' r c) (click_loop rest)"

definition click :: "real \<Rightarrow> real \<Rightarrow> chart \<Rightarrow> chart outcome" where
  "click x y c =
     (case objectsUnder (heap c) (registry c) x y of
        Inl e \<Rightarrow> Thrown e c
      | Inr hit \<Rightarrow> click_loop hit c)"

text \<open>First loop of \<^verbatim>\<open>Aristochart.prototype.update\<close>, over \<^verbatim>\<open>current\<close>.\<close>

fun hover_current :: "ref list \<Rightarrow> chart \<Rightarrow> chart outcome" where
  "hover_current [] c = Returned c"
| "hover_current (r # rest) c =
     (if \<not> truthy (props (heap c r) ''_mouseover'') then
        and_then (fire ''mouseover'' r c)
          (\<lambda>c1. hover_current rest
                   ((set_mouseover r True c1)\<lparr>mouseBuffer := mouseBuffer c1 @ [r]\<rparr>))
      else and_then (fire ''mousemove'' r c) (hover_current rest))"

text \<open>
  Second loop, over the hover buffer as the first loop left it; \<open>kept\<close> is the source's
  \<^verbatim>\<open>_buffer\<close>, assigned to \<^verbatim>\<open>this.mouseBuffer\<close> when the loop ends.
\<close>

fun hover_buffer :: "ref list \<Rightarrow> ref list \<Rightarrow> ref list \<Rightarrow> chart \<Rightarrow> chart outcome" where
  "hover_buffer [] current kept c = Returned (c\<lparr>mouseBuffer := kept\<rparr>)"
| "hover_buffer (r # rest) current kept c =
     (if indexOf current r = -1 then
        and_then (fire ''mouseout'' r c)
          (\<lambda>c1. hover_buffer rest current kept (set_mouseover r False c1))
      else hover_buffer rest current (kept @ [r]) c)"

text \<open>
  The throttled block of \<^verbatim>\<open>Aristochart.prototype.update\<close>: everything it does before
  \<^verbatim>\<open>this.registry.update()\<close>. It runs only when the pointer is not where the last tick
  saw it.
\<close>

definition pointer_dispatch :: "chart \<Rightarrow> chart outcome" where
  "pointer_dispatch c =
     (if mouseX c \<noteq> prev_mouseX c \<or> mouseY c \<noteq> prev_mouseY c then
        (case objectsUnder (heap c) (registry c) (mouseX c) (mouseY c) of
           Inl e \<Rightarrow> Thrown e c
         | Inr current \<Rightarrow>
             and_then
               (and_then (hover_current current c)
                  (\<lambda>c1. hover_buffer (mouseBuffer c1) current [] c1))
               (\<lambda>c2. Returned (c2\<lparr>prev_mouseX := mouseX c2, prev_mouseY := mouseY c2\<rparr>)))
      else Returned c)"

text \<open>
  \<^verbatim>\<open>Registry.update\<close> and \<^verbatim>\<open>Registry.render\<close> walk the registry from its last index
  down to 0; \<open>visit\<close> gets the references in that order.
\<close>

fun visit ::
  "(ref \<Rightarrow> primitive \<Rightarrow> env \<Rightarrow> (primitive \<times> env) outcome) \<Rightarrow> ref list \<Rightarrow> chart
     \<Rightarrow> chart outcome" where
  "visit method [] c = Returned c"
| "visit method (r # rest) c =
     (case method r (heap c r) (cenv c) of
        Returned (p, e) \<Rightarrow> visit method rest (c\<lparr>heap := (heap c)(r := p), cenv := e\<rparr>)
      | Thrown err (p, e) \<Rightarrow> Thrown err (c\<lparr>heap := (heap c)(r := p), cenv := e\<rparr>))"

definition Registry_update :: "chart \<Rightarrow> chart outcome" where
  "Registry_update c = visit Primitive_update (rev (registry c)) c"

definition Registry_render :: "chart \<Rightarrow> chart outcome" where
  "Registry_render c = visit Primitive_render (rev (registry c)) c"

definition Aristochart_update :: "chart \<Rightarrow> chart outcome" where
  "Aristochart_update c = and_then (pointer_dispatch c) Registry_update"

definition Aristochart_render :: "chart \<Rightarrow> chart outcome" where
  "Aristochart_render c = Registry_render c"

text \<open>
  The engine's \<^verbatim>\<open>tick\<close>: when running, it first asks the host for the next frame and
  only then calls update and render. \<open>host_frame\<close> is the host running one scheduled tick.
\<close>

definition Engine_tick :: "chart \<Rightarrow> chart outcome" where
  "Engine_tick c =
     (if running c then
        and_then (Aristochart_update (c\<lparr>scheduled := scheduled c + 1\<rparr>)) Aristochart_render
      else Returned c)"

definition Engine_start :: "chart \<Rightarrow> chart outcome" where
  "Engine_start c = Engine_tick (c\<lparr>running := True\<rparr>)"

definition Engine_stop :: "chart \<Rightarrow> chart" where
  "Engine_stop c = c\<lparr>running := False\<rparr>"

definition host_frame :: "chart \<Rightarrow> chart outcome" where
  "host_frame c =
     (if scheduled c = 0 then Returned c else Engine_tick (c\<lparr>scheduled := scheduled c - 1\<rparr>))"

section \<open>Data validation\<close>

text \<open>
  \<^verbatim>\<open>Aristochart.Data.prototype.validateData\<close>. The raw data is an object, given by its
  keys. The line branch is \<^verbatim>\<open>if(!data.x || !data.y) Aristochart.Error(...)\<close>, written
  here with the two outcomes swapped. The pie branch calls \<^verbatim>\<open>Object.key(data)\<close>; \<^verbatim>\<open>Object\<close> has no member \<^verbatim>\<open>key\<close>
  (the standard one is \<^verbatim>\<open>keys\<close>), so the call is a TypeError before the length is
  compared and before \<^verbatim>\<open>Aristochart.Error\<close> is reached.
\<close>

definition get_key :: "(string \<times> jsval) list \<Rightarrow> string \<Rightarrow> jsval" where
  "get_key obj k = (case map_of obj k of None \<Rightarrow> Undefined | Some v \<Rightarrow> v)"

definition validateData :: "bool \<Rightarrow> string \<Rightarrow> (string \<times> jsval) list \<Rightarrow> error + unit" where
  "validateData DEBUG context_type raw =
     (if context_type = ''line'' then
        (if truthy (get_key raw ''x'') \<and> truthy (get_key raw ''y'')
         then Inr () else Aristochart_Error DEBUG InvalidLineData)
      else if context_type = ''pie'' then Inl TypeError
      else Inr ())"

section \<open>Runs, counts and expected results\<close>

text \<open>
  \<open>updates n r\<close> is \<open>n\<close> successive calls of \<^verbatim>\<open>update()\<close> on the primitive \<open>r\<close>; the
  run stops at the first call that throws.
\<close>

fun updates :: "nat \<Rightarrow> ref \<Rightarrow> primitive \<times> env \<Rightarrow> (primitive \<times> env) outcome" where
  "updates 0 r s = Returned s"
| "updates (Suc n) r s = and_then (Primitive_update r (fst s) (snd s)) (updates n r)"

text \<open>How often a trace holds a call of the completion callback \<open>f\<close>.\<close>

fun fired :: "userfn \<Rightarrow> call list \<Rightarrow> nat" where
  "fired f [] = 0"
| "fired f (Completion r g # cs) = (if g = f then Suc (fired f cs) else fired f cs)"
| "fired f (c # cs) = fired f cs"

text \<open>The primitives on which a trace calls the handler of the event \<open>name\<close>, in order.\<close>

fun targets :: "string \<Rightarrow> call list \<Rightarrow> ref list" where
  "targets name [] = []"
| "targets name (Handler n r f # cs) = (if n = name then r # targets name cs else targets name cs)"
| "targets name (c # cs) = targets name cs"

definition handles :: "(ref \<Rightarrow> primitive) \<Rightarrow> string \<Rightarrow> ref \<Rightarrow> bool" where
  "handles h name r = (map_of (events (h r)) name \<noteq> None)"

text \<open>
  The tasks the words of the specification ask of \<^verbatim>\<open>animate\<close>: one per entry whose
  property currently holds a number, in the order of the entries.
\<close>

fun valid_tasks ::
  "(string \<Rightarrow> jsval) \<Rightarrow> real \<Rightarrow> userfn option \<Rightarrow> easingfn \<Rightarrow> (string \<times> real) list
     \<Rightarrow> animation list" where
  "valid_tasks ps frames cb ease [] = []"
| "valid_tasks ps frames cb ease ((prop, target) # rest) =
     (case ps prop of
        Num current \<Rightarrow>
          \<lparr>frame = frames, length_anim = frames, callback = cb, property = prop,
           initialValue = current, range_anim = target - current, easing = ease\<rparr>
          # valid_tasks ps frames cb ease rest
      | v \<Rightarrow> valid_tasks ps frames cb ease rest)"

fun is_number :: "jsval \<Rightarrow> bool" where
  "is_number (Num r) = True"
| "is_number v = False"

text \<open>The error \<^verbatim>\<open>animate\<close> reports for an entry whose property does not hold a number.\<close>

definition property_error :: "(string \<Rightarrow> jsval) \<Rightarrow> string \<Rightarrow> error" where
  "property_error ps prop =
     (if loosely_undefined (ps prop) then PropertyMissing prop else PropertyNotNumber prop)"

text \<open>
  The names every JavaScript object inherits from \<^verbatim>\<open>Object.prototype\<close>. Looking one of
  them up in \<^verbatim>\<open>Aristochart.Easing\<close> finds the inherited member, which is truthy and
  no easing function: \<^verbatim>\<open>animate\<close> neither reports such a name as missing nor replaces it
  by \<^verbatim>\<open>easeInQuad\<close>. Statements about easing names leave these names out.
\<close>

definition inherited_member :: "string \<Rightarrow> bool" where
  "inherited_member name =
     (name \<in> set [''constructor'', ''toString'', ''toLocaleString'', ''valueOf'',
                   ''hasOwnProperty'', ''isPrototypeOf'', ''propertyIsEnumerable'',
                   ''__proto__'', ''__defineGetter__'', ''__defineSetter__'',
                   ''__lookupGetter__'', ''__lookupSetter__''])"

text \<open>A queue whose completion callbacks all return and none of which is \<open>cb\<close>.\<close>

definition quiet_queue :: "userfn \<Rightarrow> animation list \<Rightarrow> bool" where
  "quiet_queue cb q =
     list_all (\<lambda>a. case callback a of None \<Rightarrow> True | Some f \<Rightarrow> f \<noteq> cb \<and> \<not> throws f) q"

text \<open>
  Whether the pointer at \<open>(x, y)\<close> is inside the primitive \<open>r\<close>, by its own
  \<^verbatim>\<open>isInside\<close>; a primitive without one is never inside.
\<close>

definition inside :: "(ref \<Rightarrow> primitive) \<Rightarrow> real \<Rightarrow> real \<Rightarrow> ref \<Rightarrow> bool" where
  "inside h x y r =
     (case isInside (h r) of
        None \<Rightarrow> False
      | Some f \<Rightarrow> f (props (h r)) (js_minus x (props (h r) ''x'')) (js_minus y (props (h r) ''y'')))"

text \<open>
  The calls \<open>fire\<close> adds to the trace, the charts whose event handlers all return, and
  the \<^verbatim>\<open>_mouseover\<close> flag of a primitive as \<^verbatim>\<open>update\<close> reads it.
\<close>

definition handler_call :: "(ref \<Rightarrow> primitive) \<Rightarrow> string \<Rightarrow> ref \<Rightarrow> call list" where
  "handler_call h name r =
     (case map_of (events (h r)) name of None \<Rightarrow> [] | Some f \<Rightarrow> [Handler name r f])"

definition handlers_return :: "(ref \<Rightarrow> primitive) \<Rightarrow> bool" where
  "handlers_return h = (\<forall>r name f. map_of (events (h r)) name = Some f \<longrightarrow> \<not> throws f)"

definition flagged :: "chart \<Rightarrow> ref \<Rightarrow> bool" where
  "flagged c r = truthy (props (heap c r) ''_mouseover'')"

text \<open>
  The engine's own fields are the same in two chart states.
\<close>

definition engine_kept :: "chart \<Rightarrow> chart \<Rightarrow> bool" where
  "engine_kept c c' = (running c' = running c \<and> scheduled c' = scheduled c)"

section \<open>Example primitives\<close>

text \<open>
  \<^verbatim>\<open>isInside\<close> of the default theme's point:
  \<^verbatim>\<open>var half = this.side/2; if(x > -half && x < half && y > -half && y < half) return true; else return false;\<close>
  A comparison with not-a-number is false.
\<close>

definition point_isInside :: "(string \<Rightarrow> jsval) \<Rightarrow> jsnumber \<Rightarrow> jsnumber \<Rightarrow> bool" where
  "point_isInside this x y =
     (case (to_number (this ''side''), x, y) of
        (Some side, Some dx, Some dy) \<Rightarrow>
          (let half = side / 2 in dx > - half \<and> dx < half \<and> dy > - half \<and> dy < half)
      | _ \<Rightarrow> False)"

text \<open>A point definition with \<^verbatim>\<open>render\<close> and \<^verbatim>\<open>isInside\<close> but no \<^verbatim>\<open>events\<close>.\<close>

definition quiet_point :: definition_obj where
  "quiet_point = \<lparr>obj_render = Some (Returns 0), obj_isInside = Some point_isInside,
                   obj_init = None, obj_events = None\<rparr>"

definition no_calls :: env where
  "no_calls = \<lparr>called = (\<lambda>f. False), trace = []\<rparr>"

text \<open>An instance of it at the origin, styled with \<^verbatim>\<open>side: 10\<close>.\<close>

definition dot :: primitive where
  "dot = fst (state_of (Primitive_new \<lparr>kind_style = Some [(''side'', Num 10)], kind_obj = quiet_point\<rparr>
                 (Some [(''x'', Num 0), (''y'', Num 0)]) 0 no_calls))"

text \<open>
  The same instance after \<^verbatim>\<open>animate({x: 5}, 1, cb)\<close> and then \<^verbatim>\<open>animate({y: 7}, 2, cb)\<close>
  with one callback function \<open>cb\<close>.
\<close>

definition twice :: primitive where
  "twice = state_of (animate True [(''y'', 7)] 2 (CbFunction (Returns 3)) None
             (state_of (animate True [(''x'', 5)] 1 (CbFunction (Returns 3)) None dot)))"

text \<open>
  The same instance after the one call \<^verbatim>\<open>animate({x: 5, y: 7}, 1, cb)\<close>.
\<close>

definition pair :: primitive where
  "pair = state_of (animate True [(''x'', 5), (''y'', 7)] 1 (CbFunction (Returns 3)) None dot)"

text \<open>
  The default theme's axis: a definition with \<^verbatim>\<open>render\<close> only, and the instance the
  line chart creates from it and adds to its registry.
\<close>

definition axis_definition :: definition_obj where
  "axis_definition = \<lparr>obj_render = Some (Returns 1), obj_isInside = None,
                        obj_init = None, obj_events = None\<rparr>"

definition axis :: primitive where
  "axis = fst (state_of (Primitive_new \<lparr>kind_style = Some [], kind_obj = axis_definition\<rparr>
                  (Some [(''x'', Num 20), (''y'', Num 210), (''length'', Num 340)]) 0 no_calls))"

text \<open>
  A point definition with the four event handlers of the default theme's point, an
  instance of it, and the same instance while the pointer is over it.
\<close>

definition loud_point :: definition_obj where
  "loud_point = \<lparr>obj_render = Some (Returns 0), obj_isInside = Some point_isInside,
                  obj_init = None,
                  obj_events = Some [(''click'', Returns 10), (''mouseover'', Returns 11),
                                     (''mousemove'', Returns 12), (''mouseout'', Returns 13)]\<rparr>"

definition button :: primitive where
  "button = fst (state_of (Primitive_new \<lparr>kind_style = Some [(''side'', Num 10)], kind_obj = loud_point\<rparr>
                 (Some [(''x'', Num 0), (''y'', Num 0)]) 0 no_calls))"

definition hovered_button :: primitive where
  "hovered_button = button\<lparr>props := (props button)(''_mouseover'' := Bool True)\<rparr>"

text \<open>
  Charts. \<open>hovering\<close>: the point without events is registered and the pointer has
  moved onto it. \<open>doubled\<close>: one point was added to the registry twice. \<open>crowded\<close>:
  points 0 and 1 are registered, the hover buffer holds 1 and 2, and the pointer has
  moved onto 0 and 1.
\<close>

definition hovering :: chart where
  "hovering = \<lparr>registry = [0], mouseBuffer = [], mouseX = 1, mouseY = 2,
                prev_mouseX = - 1, prev_mouseY = - 1, heap = (\<lambda>r. dot), cenv = no_calls,
                running = True, scheduled = 0\<rparr>"

definition doubled :: chart where
  "doubled = \<lparr>registry = [0, 0], mouseBuffer = [], mouseX = 1, mouseY = 2,
               prev_mouseX = - 1, prev_mouseY = - 1, heap = (\<lambda>r. button), cenv = no_calls,
               running = True, scheduled = 0\<rparr>"

definition crowded :: chart where
  "crowded = \<lparr>registry = [0, 1], mouseBuffer = [1, 2], mouseX = 1, mouseY = 2,
               prev_mouseX = - 1, prev_mouseY = - 1,
               heap = (\<lambda>r. if r = 1 \<or> r = 2 then hovered_button else button),
               cenv = no_calls, running = True, scheduled = 0\<rparr>"

text \<open>
  \<open>faulty\<close>: the point without events after \<^verbatim>\<open>animate({x: 5}, 0, cb)\<close> with a
  callback that throws. \<open>stage\<close>: a chart whose registry holds \<open>twice\<close> at index 0 and
  \<open>faulty\<close> at index 1; the pointer has not moved.
\<close>

definition faulty :: primitive where
  "faulty = state_of (animate True [(''x'', 5)] 0 (CbFunction (Throws 4)) None dot)"

definition stage :: chart where
  "stage = \<lparr>registry = [0, 1], mouseBuffer = [], mouseX = - 1, mouseY = - 1,
             prev_mouseX = - 1, prev_mouseY = - 1,
             heap = (\<lambda>r. if r = 1 then faulty else twice),
             cenv = no_calls, running = True, scheduled = 0\<rparr>"

section \<open>Registry.remove\<close>

lemma indexOf_from_absent: "v \<notin> set xs \<Longrightarrow> indexOf_from xs v k = -1"
  by (induction xs arbitrary: k) auto

lemma indexOf_from_present:
  "v \<in> set xs \<Longrightarrow>
     \<exists>n. indexOf_from xs v k = k + int n \<and> n < length xs \<and> xs ! n = v \<and> v \<notin> set (take n xs)"
proof (induction xs arbitrary: k)
  case Nil
  then show ?case by simp
next
  case (Cons a as)
  show ?case
  proof (cases "a = v")
    case True
    then have "indexOf_from (a # as) v k = k + int 0 \<and> 0 < length (a # as)
        \<and> (a # as) ! 0 = v \<and> v \<notin> set (take 0 (a # as))"
      by simp
    then show ?thesis by blast
  next
    case False
    with Cons.prems have "v \<in> set as" by simp
    from Cons.IH [OF this, of "k + 1"] obtain n where
      n: "indexOf_from as v (k + 1) = k + 1 + int n" "n < length as" "as ! n = v"
         "v \<notin> set (take n as)"
      by blast
    from False n have "indexOf_from (a # as) v k = k + int (Suc n) \<and> Suc n < length (a # as)
        \<and> (a # as) ! Suc n = v \<and> v \<notin> set (take (Suc n) (a # as))"
      by simp
    then show ?thesis by blast
  qed
qed

lemma Registry_remove_present:
  assumes "p \<in> set reg"
  shows "\<exists>front back. reg = front @ p # back \<and> p \<notin> set front
           \<and> Registry_remove reg p = front @ back"
proof -
  from indexOf_from_present [OF assms, of 0] obtain n where
    n: "indexOf reg p = int n" "n < length reg" "reg ! n = p"
       "p \<notin> set (take n reg)"
    by (auto simp: indexOf_def)
  have split: "reg = take n reg @ p # drop (Suc n) reg"
    using n(2,3) by (metis id_take_nth_drop)
  have "Registry_remove reg p = take n reg @ drop (Suc n) reg"
    using n(1,2) by (simp add: Registry_remove_def splice1_def Let_def min_def)
  with split n(4) show ?thesis by blast
qed

lemma Registry_remove_absent:
  "p \<notin> set reg \<Longrightarrow> Registry_remove reg p = butlast reg"
proof -
  assume "p \<notin> set reg"
  then have "indexOf reg p = -1"
    by (simp add: indexOf_def indexOf_from_absent)
  moreover have "nat (int (length reg) - 1) = length reg - 1"
    by simp
  ultimately show ?thesis
    by (cases "reg = []")
       (simp_all add: Registry_remove_def splice1_def Let_def max_def butlast_conv_take
          del: of_nat_diff)
qed

text \<open>
  C5. \<^verbatim>\<open>remove(p)\<close> of a primitive that is not registered is not a no-op: \<open>indexOf\<close>
  answers -1 and \<^verbatim>\<open>splice(-1, 1)\<close> deletes the last entry. With primitives 1 and 2
  registered, removing the unregistered primitive 3 leaves only primitive 1.
\<close>

theorem Registry_remove_absent_drops_last:
  "Registry_remove [1, 2] 3 = [1]"
  by (simp add: Registry_remove_def splice1_def indexOf_def)

section \<open>The example primitives, evaluated\<close>

lemma dot_eq:
  "dot = \<lparr>props = Primitive_defaults(''mouseEnabled'' := Bool False, ''x'' := Num 0, ''y'' := Num 0, ''side'' := Num 10),
          animationBuffer = [], events = [], isInside = Some point_isInside, render = Some (Returns 0)\<rparr>"
  by (simp add: dot_def Primitive_new_def quiet_point_def no_calls_def)

lemma dot_x: "props dot ''x'' = Num 0"
  by (simp add: dot_eq Primitive_defaults_def)

lemma dot_y: "props dot ''y'' = Num 0"
  by (simp add: dot_eq Primitive_defaults_def)

lemma dot_nope: "props dot ''nope'' = Undefined"
  by (simp add: dot_eq Primitive_defaults_def)

lemma dot_buf: "animationBuffer dot = []"
  by (simp add: dot_eq)

lemma dot_quiet: "quiet_queue cb (animationBuffer dot)"
  by (simp add: dot_buf quiet_queue_def)

lemma twice_eq:
  "twice = dot\<lparr>animationBuffer :=
      [\<lparr>frame = 1, length_anim = 1, callback = Some (Returns 3), property = ''x'',
         initialValue = 0, range_anim = 5, easing = easeInQuad\<rparr>,
       \<lparr>frame = 2, length_anim = 2, callback = Some (Returns 3), property = ''y'',
         initialValue = 0, range_anim = 7, easing = easeInQuad\<rparr>]\<rparr>"
proof -
  have undef: "Easing ''undefined'' = None"
    by (simp add: Easing_def Easing_table_def)
  show ?thesis
    by (simp add: twice_def animate_def easing_given_def callback_given_def easing_or_default_def
        undef dot_x dot_y dot_buf)
qed

lemma bogus: "Easing ''bogus'' = None"
  by (simp add: Easing_def Easing_table_def)

section \<open>animate: property errors and unknown easing names\<close>

lemma animate_loop_off:
  "animate_loop False properties frames cb ease this =
     Returned (this\<lparr>animationBuffer := animationBuffer this @ valid_tasks (props this) frames cb ease properties\<rparr>)"
proof (induction properties arbitrary: this)
  case Nil
  then show ?case by simp
next
  case (Cons a properties)
  obtain pn tg where a: "a = (pn, tg)" by (cases a)
  show ?case
    by (cases "props this pn") (simp_all add: a Cons.IH Aristochart_Error_def)
qed

lemma animate_loop_all_valid:
  "\<forall>(k, t) \<in> set properties. is_number (props this k) \<Longrightarrow>
   animate_loop DEBUG properties frames cb ease this =
     Returned (this\<lparr>animationBuffer := animationBuffer this @ valid_tasks (props this) frames cb ease properties\<rparr>)"
proof (induction properties arbitrary: this)
  case Nil
  then show ?case by simp
next
  case (Cons a properties)
  obtain pn tg where a: "a = (pn, tg)" by (cases a)
  from Cons.prems a obtain cur where cur: "props this pn = Num cur"
    by (cases "props this pn") auto
  from Cons.prems have rest: "\<forall>(k, t) \<in> set properties. is_number (props this k)" by simp
  show ?case
    using cur rest by (simp add: a Cons.IH)
qed

lemma animate_loop_on:
  assumes "\<forall>(k, t) \<in> set pre. is_number (props this k)" and "\<not> is_number (props this prop)"
  shows "animate_loop True (pre @ (prop, target) # post) frames cb ease this =
     Thrown (property_error (props this) prop)
       (this\<lparr>animationBuffer := animationBuffer this @ valid_tasks (props this) frames cb ease pre\<rparr>)"
  using assms
proof (induction pre arbitrary: this)
  case Nil
  then show ?case
    by (cases "props this prop") (simp_all add: Aristochart_Error_def property_error_def)
next
  case (Cons a pre)
  obtain k t where a: "a = (k, t)" by (cases a)
  from Cons.prems a obtain cur where cur: "props this k = Num cur"
    by (cases "props this k") auto
  from Cons.prems have rest: "\<forall>(k, t) \<in> set pre. is_number (props this k)" by simp
  show ?case
    using cur rest Cons.prems(2) by (simp add: a Cons.IH)
qed

text \<open>
  C7. As stated the claim fails: while \<^verbatim>\<open>Aristochart.DEBUG\<close> is true (its initial
  value) the error of an absent or non-numeric property is thrown out of \<^verbatim>\<open>animate\<close>,
  which ends the call there. What holds, for every call whose easing name is not a
  member inherited from \<^verbatim>\<open>Object.prototype\<close>: with DEBUG false no entry raises
  anything, the entries whose property holds no number are skipped and a task is
  enqueued for every other entry, in order; with DEBUG true, and provided the check of the
  easing name before the loop passes (the name is falsy, or it is in the table), the
  first entry whose property holds no number throws its error, the tasks of the entries
  before it stay enqueued and no later entry is looked at.
\<close>

theorem animate_partial:
  "\<not> inherited_member (easing_key (easing_given cb_in easing_in)) \<longrightarrow>
   animate False properties frames cb_in easing_in this =
     Returned (this\<lparr>animationBuffer := animationBuffer this @
        valid_tasks (props this) frames (callback_given cb_in)
          (easing_or_default (easing_given cb_in easing_in)) properties\<rparr>)
   \<and> ((\<forall>(k, t) \<in> set pre. is_number (props this k)) \<and> \<not> is_number (props this prop)
        \<and> \<not> (easing_truthy (easing_given cb_in easing_in)
              \<and> Easing (easing_key (easing_given cb_in easing_in)) = None)
      \<longrightarrow> animate True (pre @ (prop, target) # post) frames cb_in easing_in this =
            Thrown (property_error (props this) prop)
              (this\<lparr>animationBuffer := animationBuffer this @
                 valid_tasks (props this) frames (callback_given cb_in)
                   (easing_or_default (easing_given cb_in easing_in)) pre\<rparr>))"
proof (intro impI conjI)
  show "animate False properties frames cb_in easing_in this =
     Returned (this\<lparr>animationBuffer := animationBuffer this @
        valid_tasks (props this) frames (callback_given cb_in)
          (easing_or_default (easing_given cb_in easing_in)) properties\<rparr>)"
    by (simp add: animate_def Let_def Aristochart_Error_def animate_loop_off)
next
  assume h: "(\<forall>(k, t) \<in> set pre. is_number (props this k)) \<and> \<not> is_number (props this prop)
        \<and> \<not> (easing_truthy (easing_given cb_in easing_in)
              \<and> Easing (easing_key (easing_given cb_in easing_in)) = None)"
  then have "animate True (pre @ (prop, target) # post) frames cb_in easing_in this =
      animate_loop True (pre @ (prop, target) # post) frames (callback_given cb_in)
        (easing_or_default (easing_given cb_in easing_in)) this"
    by (auto simp add: animate_def Let_def)
  with h show "animate True (pre @ (prop, target) # post) frames cb_in easing_in this =
            Thrown (property_error (props this) prop)
              (this\<lparr>animationBuffer := animationBuffer this @
                 valid_tasks (props this) frames (callback_given cb_in)
                   (easing_or_default (easing_given cb_in easing_in)) pre\<rparr>)"
    by (simp add: animate_loop_on)
qed

theorem animate_partial_witness:
  "animate False [(''nope'', 1), (''x'', 5)] 10 CbUndefined None dot =
     Returned (dot\<lparr>animationBuffer :=
        [\<lparr>frame = 10, length_anim = 10, callback = None, property = ''x'',
          initialValue = 0, range_anim = 5, easing = easeInQuad\<rparr>]\<rparr>)
   \<and> animate True [(''x'', 5), (''nope'', 1), (''y'', 2)] 10 CbUndefined None dot =
     Thrown (PropertyMissing ''nope'') (dot\<lparr>animationBuffer :=
        [\<lparr>frame = 10, length_anim = 10, callback = None, property = ''x'',
          initialValue = 0, range_anim = 5, easing = easeInQuad\<rparr>]\<rparr>)"
  using animate_partial [of CbUndefined None "[(''nope'', 1), (''x'', 5)]" 10 dot
      "[(''x'', 5)]" "''nope''" 1 "[(''y'', 2)]"]
  by (simp add: dot_x dot_nope dot_buf easing_given_def callback_given_def easing_or_default_def
      Easing_def Easing_table_def property_error_def inherited_member_def)

text \<open>
  The claim fails at \<^verbatim>\<open>animate({nope: 1, x: 5}, 10)\<close> with DEBUG true: the call throws at
  \<^verbatim>\<open>nope\<close> and no task for the valid property \<^verbatim>\<open>x\<close> is enqueued.
\<close>

theorem animate_aborts_counterexample:
  "animate True [(''nope'', 1), (''x'', 5)] 10 CbUndefined None dot
     = Thrown (PropertyMissing ''nope'') dot
   \<and> animationBuffer (state_of (animate True [(''nope'', 1), (''x'', 5)] 10 CbUndefined None dot)) = []"
  by (simp add: animate_def easing_given_def callback_given_def dot_nope dot_buf Aristochart_Error_def)

text \<open>
  C8. As stated the claim fails: while \<^verbatim>\<open>Aristochart.DEBUG\<close> is true an easing name
  that is not in the table makes \<^verbatim>\<open>animate\<close> throw before it enqueues anything. What
  holds, for a name that \<^verbatim>\<open>Aristochart.Easing\<close> does not hold at all, neither as an
  entry of the table nor as a member inherited from \<^verbatim>\<open>Object.prototype\<close>
  (\<^verbatim>\<open>toString\<close>, \<^verbatim>\<open>constructor\<close>, ...): with DEBUG false the call returns, skips the
  entries whose property holds no number, and every task it enqueues carries
  \<^verbatim>\<open>easeInQuad\<close>; with DEBUG true the call throws the easing error and enqueues
  nothing when the name is truthy, and when it is not (no name given, or the empty string
  as fourth argument) and every listed property is numeric, the call is not checked,
  returns and uses \<^verbatim>\<open>easeInQuad\<close>.
\<close>

theorem unknown_easing:
  assumes "Easing (easing_key (easing_given cb_in easing_in)) = None"
      and "\<not> inherited_member (easing_key (easing_given cb_in easing_in))"
  shows "animate False properties frames cb_in easing_in this =
           Returned (this\<lparr>animationBuffer := animationBuffer this @
              valid_tasks (props this) frames (callback_given cb_in) easeInQuad properties\<rparr>)
       \<and> (easing_truthy (easing_given cb_in easing_in) \<longrightarrow>
            animate True properties frames cb_in easing_in this =
              Thrown (EasingMissing (easing_key (easing_given cb_in easing_in))) this)
       \<and> (\<not> easing_truthy (easing_given cb_in easing_in)
            \<and> (\<forall>(k, t) \<in> set properties. is_number (props this k)) \<longrightarrow>
            animate True properties frames cb_in easing_in this =
              Returned (this\<lparr>animationBuffer := animationBuffer this @
                valid_tasks (props this) frames (callback_given cb_in) easeInQuad properties\<rparr>))"
proof (intro conjI impI)
  from assms(1) have d: "easing_or_default (easing_given cb_in easing_in) = easeInQuad"
    by (simp add: easing_or_default_def)
  show "animate False properties frames cb_in easing_in this =
           Returned (this\<lparr>animationBuffer := animationBuffer this @
              valid_tasks (props this) frames (callback_given cb_in) easeInQuad properties\<rparr>)"
    by (simp add: animate_def Let_def Aristochart_Error_def animate_loop_off d)
  show "easing_truthy (easing_given cb_in easing_in) \<Longrightarrow>
         animate True properties frames cb_in easing_in this =
           Thrown (EasingMissing (easing_key (easing_given cb_in easing_in))) this"
    using assms(1) by (simp add: animate_def Let_def Aristochart_Error_def)
  show "\<not> easing_truthy (easing_given cb_in easing_in)
          \<and> (\<forall>(k, t) \<in> set properties. is_number (props this k)) \<Longrightarrow>
         animate True properties frames cb_in easing_in this =
           Returned (this\<lparr>animationBuffer := animationBuffer this @
              valid_tasks (props this) frames (callback_given cb_in) easeInQuad properties\<rparr>)"
    by (simp add: animate_def Let_def animate_loop_all_valid d)
qed

theorem unknown_easing_witness:
  "Easing ''bogus'' = None \<and> \<not> inherited_member ''bogus''
   \<and> animate False [(''x'', 5)] 10 CbUndefined (Some ''bogus'') dot =
       Returned (dot\<lparr>animationBuffer :=
        [\<lparr>frame = 10, length_anim = 10, callback = None, property = ''x'',
          initialValue = 0, range_anim = 5, easing = easeInQuad\<rparr>]\<rparr>)
   \<and> animate True [(''x'', 5)] 10 CbUndefined (Some ''bogus'') dot =
       Thrown (EasingMissing ''bogus'') dot
   \<and> Easing '''' = None \<and> \<not> inherited_member '''' \<and> is_number (props dot ''x'')
   \<and> animate True [(''x'', 5)] 10 CbUndefined (Some '''') dot =
       Returned (dot\<lparr>animationBuffer :=
        [\<lparr>frame = 10, length_anim = 10, callback = None, property = ''x'',
          initialValue = 0, range_anim = 5, easing = easeInQuad\<rparr>]\<rparr>)"
proof -
  have none: "Easing '''' = None"
    by (simp add: Easing_def Easing_table_def)
  from unknown_easing [of CbUndefined "Some ''bogus''" "[(''x'', 5)]" 10 dot]
  have named: "animate False [(''x'', 5)] 10 CbUndefined (Some ''bogus'') dot =
       Returned (dot\<lparr>animationBuffer :=
        [\<lparr>frame = 10, length_anim = 10, callback = None, property = ''x'',
          initialValue = 0, range_anim = 5, easing = easeInQuad\<rparr>]\<rparr>)
     \<and> animate True [(''x'', 5)] 10 CbUndefined (Some ''bogus'') dot =
       Thrown (EasingMissing ''bogus'') dot"
    by (simp add: bogus easing_given_def callback_given_def inherited_member_def dot_x dot_buf)
  from unknown_easing [of CbUndefined "Some ''''" "[(''x'', 5)]" 10 dot]
  have empty: "animate True [(''x'', 5)] 10 CbUndefined (Some '''') dot =
       Returned (dot\<lparr>animationBuffer :=
        [\<lparr>frame = 10, length_anim = 10, callback = None, property = ''x'',
          initialValue = 0, range_anim = 5, easing = easeInQuad\<rparr>]\<rparr>)"
    by (simp add: none easing_given_def callback_given_def inherited_member_def dot_x dot_buf)
  from named empty none show ?thesis
    by (simp add: bogus inherited_member_def dot_x)
qed

text \<open>
  The claim fails at \<^verbatim>\<open>animate({x: 5}, 10, undefined, "bogus")\<close> with DEBUG true.
\<close>

theorem unknown_easing_counterexample:
  "animate True [(''x'', 5)] 10 CbUndefined (Some ''bogus'') dot = Thrown (EasingMissing ''bogus'') dot"
  by (simp add: animate_def easing_given_def callback_given_def bogus Aristochart_Error_def)

section \<open>update: reaching the target and firing the callback\<close>

lemma fired_append: "fired f (xs @ ys) = fired f xs + fired f ys"
  by (induction f xs rule: fired.induct) auto

lemma quiet_queue_append: "quiet_queue cb (xs @ ys) = (quiet_queue cb xs \<and> quiet_queue cb ys)"
  by (simp add: quiet_queue_def)

lemma updates_numeral:
  "updates (numeral k) r s =
     and_then (Primitive_update r (fst s) (snd s)) (updates (pred_numeral k) r)"
  by (simp add: numeral_eq_Suc)

lemma update_loop_quiet:
  "quiet_queue cb xs \<Longrightarrow>
   \<exists>nb' this' e' seen'.
      (\<forall>ys. update_loop r (xs @ ys) seen nb this e = update_loop r ys seen' (nb @ nb') this' e')
      \<and> quiet_queue cb nb' \<and> called e' cb = called e cb
      \<and> fired cb (trace e') = fired cb (trace e)"
proof (induction xs arbitrary: seen nb this e)
  case Nil
  have "(\<forall>ys. update_loop r ([] @ ys) seen nb this e = update_loop r ys seen (nb @ []) this e)
      \<and> quiet_queue cb [] \<and> called e cb = called e cb
      \<and> fired cb (trace e) = fired cb (trace e)"
    by (simp add: quiet_queue_def)
  then show ?case by blast
next
  case (Cons a xs)
  from Cons.prems have qa: "case callback a of None \<Rightarrow> True | Some f \<Rightarrow> f \<noteq> cb \<and> \<not> throws f"
    and qxs: "quiet_queue cb xs"
    by (simp_all add: quiet_queue_def)
  show ?case
  proof (cases "frame a \<noteq> 0")
    case True
    define a1 where "a1 = a\<lparr>frame := frame a - 1\<rparr>"
    define this1 where "this1 = animation_update this (length_anim a - frame a) (property a)
       (initialValue a + easing a ((length_anim a - frame a) + 1) 0 (range_anim a) (length_anim a))"
    have step: "\<And>ys. update_loop r ((a # xs) @ ys) seen nb this e
        = update_loop r (xs @ ys) (seen @ [a1]) (nb @ [a1]) this1 e"
      using True by (simp add: a1_def this1_def Let_def)
    from Cons.IH [OF qxs, of "seen @ [a1]" "nb @ [a1]" this1 e]
    obtain nb' this' e' seen' where
      ih: "\<forall>ys. update_loop r (xs @ ys) (seen @ [a1]) (nb @ [a1]) this1 e
              = update_loop r ys seen' ((nb @ [a1]) @ nb') this' e'"
        "quiet_queue cb nb'" "called e' cb = called e cb"
        "fired cb (trace e') = fired cb (trace e)"
      by blast
    have qa1: "quiet_queue cb ([a1] @ nb')"
      using qa ih(2) by (simp add: quiet_queue_def a1_def)
    have "(\<forall>ys. update_loop r ((a # xs) @ ys) seen nb this e
              = update_loop r ys seen' (nb @ ([a1] @ nb')) this' e')
        \<and> quiet_queue cb ([a1] @ nb') \<and> called e' cb = called e cb
        \<and> fired cb (trace e') = fired cb (trace e)"
      using step ih qa1 by simp
    then show ?thesis by blast
  next
    case False
    then have f0: "frame a = 0" by simp
    show ?thesis
    proof (cases "callback a")
      case None
      have step: "\<And>ys. update_loop r ((a # xs) @ ys) seen nb this e
          = update_loop r (xs @ ys) (seen @ [a]) nb this e"
        using f0 None by simp
      from Cons.IH [OF qxs, of "seen @ [a]" nb this e] step show ?thesis by simp
    next
      case (Some f)
      with qa have fcb: "f \<noteq> cb" and nt: "\<not> throws f" by simp_all
      show ?thesis
      proof (cases "called e f")
        case True
        have step: "\<And>ys. update_loop r ((a # xs) @ ys) seen nb this e
            = update_loop r (xs @ ys) (seen @ [a]) nb this e"
          using f0 Some True by simp
        from Cons.IH [OF qxs, of "seen @ [a]" nb this e] step show ?thesis by simp
      next
        case False
        define e2 where "e2 = e\<lparr>trace := trace e @ [Completion r f], called := (called e)(f := True)\<rparr>"
        have step: "\<And>ys. update_loop r ((a # xs) @ ys) seen nb this e
            = update_loop r (xs @ ys) (seen @ [a]) nb this e2"
          using f0 Some False nt by (simp add: e2_def Let_def)
        have e2: "called e2 cb = called e cb" "fired cb (trace e2) = fired cb (trace e)"
          using fcb by (simp_all add: e2_def fired_append)
        from Cons.IH [OF qxs, of "seen @ [a]" nb this e2] step e2 show ?thesis by simp
      qed
    qed
  qed
qed

lemma update_active_last:
  assumes q: "quiet_queue cb xs" and act: "frame t \<noteq> 0"
      and buf: "animationBuffer p = xs @ [t]"
  shows "\<exists>xs' p' e'. Primitive_update r p e = Returned (p', e')
           \<and> animationBuffer p' = xs' @ [t\<lparr>frame := frame t - 1\<rparr>]
           \<and> props p' (property t) =
               Num (initialValue t
                    + easing t ((length_anim t - frame t) + 1) 0 (range_anim t) (length_anim t))
           \<and> quiet_queue cb xs' \<and> called e' cb = called e cb
           \<and> fired cb (trace e') = fired cb (trace e)"
proof -
  from update_loop_quiet [OF q, of r "[]" "[]" "props p" e]
  obtain nb' this' e' seen' where
    pre: "\<forall>ys. update_loop r (xs @ ys) [] [] (props p) e = update_loop r ys seen' ([] @ nb') this' e'"
      "quiet_queue cb nb'" "called e' cb = called e cb"
      "fired cb (trace e') = fired cb (trace e)"
    by blast
  define v where "v = initialValue t
      + easing t ((length_anim t - frame t) + 1) 0 (range_anim t) (length_anim t)"
  have "update_loop r (xs @ [t]) [] [] (props p) e
      = Returned (nb' @ [t\<lparr>frame := frame t - 1\<rparr>], this'(property t := Num v), e')"
    using pre(1) act by (simp add: Let_def animation_update_def v_def)
  then have "Primitive_update r p e =
      Returned (p\<lparr>props := this'(property t := Num v),
                  animationBuffer := nb' @ [t\<lparr>frame := frame t - 1\<rparr>]\<rparr>, e')"
    using buf by (simp add: Primitive_update_def)
  with pre(2,3,4) show ?thesis by (simp add: v_def)
qed

lemma update_finished_last:
  assumes q: "quiet_queue cb xs" and fin: "frame t = 0" and cb: "callback t = Some cb"
      and buf: "animationBuffer p = xs @ [t]"
      and fresh: "\<not> called e cb" and nt: "\<not> throws cb"
  shows "\<exists>xs' p' e'. Primitive_update r p e = Returned (p', e')
           \<and> animationBuffer p' = xs' \<and> quiet_queue cb xs' \<and> called e' cb
           \<and> fired cb (trace e') = fired cb (trace e) + 1"
proof -
  from update_loop_quiet [OF q, of r "[]" "[]" "props p" e]
  obtain nb' this' e' seen' where
    pre: "\<forall>ys. update_loop r (xs @ ys) [] [] (props p) e = update_loop r ys seen' ([] @ nb') this' e'"
      "quiet_queue cb nb'" "called e' cb = called e cb"
      "fired cb (trace e') = fired cb (trace e)"
    by blast
  define e2 where "e2 = e'\<lparr>trace := trace e' @ [Completion r cb], called := (called e')(cb := True)\<rparr>"
  have "update_loop r (xs @ [t]) [] [] (props p) e = Returned (nb', this', e2)"
    using pre(1,3) fin cb fresh nt by (simp add: Let_def e2_def)
  then have "Primitive_update r p e = Returned (p\<lparr>props := this', animationBuffer := nb'\<rparr>, e2)"
    using buf by (simp add: Primitive_update_def)
  moreover have "called e2 cb" "fired cb (trace e2) = fired cb (trace e) + 1"
    using pre(4) by (simp_all add: e2_def fired_append)
  ultimately show ?thesis using pre(2) by simp
qed

lemma countdown:
  fixes N :: nat
  assumes "j + k \<le> N"
      and "animationBuffer p = xs @ [t\<lparr>frame := real N - real j\<rparr>]"
      and "length_anim t = real N"
      and "quiet_queue cb xs"
      and "\<not> called e cb"
  shows "\<exists>xs' p' e'. updates k r (p, e) = Returned (p', e')
           \<and> animationBuffer p' = xs' @ [t\<lparr>frame := real N - real (j + k)\<rparr>]
           \<and> (0 < k \<longrightarrow> props p' (property t) =
                 Num (initialValue t + easing t (real (j + k)) 0 (range_anim t) (real N)))
           \<and> quiet_queue cb xs' \<and> \<not> called e' cb
           \<and> fired cb (trace e') = fired cb (trace e)"
  using assms
proof (induction k arbitrary: j p e xs)
  case 0
  then show ?case by simp
next
  case (Suc k)
  let ?t = "t\<lparr>frame := real N - real j\<rparr>"
  from Suc.prems(1) have act: "frame ?t \<noteq> 0" by simp
  from update_active_last [OF Suc.prems(4) act Suc.prems(2), of r e]
  obtain xs1 p1 e1 where
    one: "Primitive_update r p e = Returned (p1, e1)"
      "animationBuffer p1 = xs1 @ [?t\<lparr>frame := frame ?t - 1\<rparr>]"
      "props p1 (property ?t) =
         Num (initialValue ?t
              + easing ?t ((length_anim ?t - frame ?t) + 1) 0 (range_anim ?t) (length_anim ?t))"
      "quiet_queue cb xs1" "called e1 cb = called e cb"
      "fired cb (trace e1) = fired cb (trace e)"
    by blast
  have buf1: "animationBuffer p1 = xs1 @ [t\<lparr>frame := real N - real (Suc j)\<rparr>]"
    using one(2) by simp
  have val1: "props p1 (property t) =
      Num (initialValue t + easing t (real (Suc j)) 0 (range_anim t) (real N))"
    using one(3) Suc.prems(3) by (simp add: algebra_simps)
  from Suc.prems(1) have le: "Suc j + k \<le> N" by simp
  from one(5) Suc.prems(5) have fresh1: "\<not> called e1 cb" by simp
  from Suc.IH [OF le buf1 Suc.prems(3) one(4) fresh1]
  obtain xs' p' e' where
    rest: "updates k r (p1, e1) = Returned (p', e')"
      "animationBuffer p' = xs' @ [t\<lparr>frame := real N - real (Suc j + k)\<rparr>]"
      "0 < k \<longrightarrow> props p' (property t) =
          Num (initialValue t + easing t (real (Suc j + k)) 0 (range_anim t) (real N))"
      "quiet_queue cb xs'" "\<not> called e' cb"
      "fired cb (trace e') = fired cb (trace e1)"
    by blast
  have run: "updates (Suc k) r (p, e) = Returned (p', e')"
    using one(1) rest(1) by simp
  have val: "props p' (property t) =
      Num (initialValue t + easing t (real (j + Suc k)) 0 (range_anim t) (real N))"
  proof (cases "k = 0")
    case True
    with rest(1) have "p' = p1" by simp
    with val1 True show ?thesis by simp
  next
    case False
    with rest(3) show ?thesis by simp
  qed
  from run rest(2,4,5,6) one(6) val show ?case by simp
qed

text \<open>
  C1. As stated the claim fails: after exactly N calls of \<^verbatim>\<open>update()\<close> the property
  is at its target but the callback has not fired; the finished task stays in the queue
  for one more call, and that call fires the callback. What holds, in exact arithmetic
  and with the default easing, for N at least 1, a numeric property, a callback that
  returns and has not been called, and a queue whose other tasks carry returning
  callbacks other than this one: \<^verbatim>\<open>animate({p: target}, N, cb)\<close> enqueues its task
  whatever DEBUG is; N calls of \<^verbatim>\<open>update()\<close> all return, leave p equal to the target
  and have not called cb; call N + 1 calls cb once, marks it called and drops the task.
\<close>

theorem animate_then_updates:
  fixes N :: nat
  assumes "0 < N"
      and "props p prop = Num cur"
      and "quiet_queue cb (animationBuffer p)"
      and "\<not> called e cb"
      and "\<not> throws cb"
  shows "\<exists>p1 pN eN pM eM.
           animate DEBUG [(prop, target)] (real N) (CbFunction cb) None p = Returned p1
         \<and> updates N r (p1, e) = Returned (pN, eN)
         \<and> props pN prop = Num target
         \<and> fired cb (trace eN) = fired cb (trace e)
         \<and> Primitive_update r pN eN = Returned (pM, eM)
         \<and> fired cb (trace eM) = fired cb (trace e) + 1
         \<and> called eM cb
         \<and> quiet_queue cb (animationBuffer pM)"
proof -
  define t where "t = \<lparr>frame = real N, length_anim = real N, callback = Some cb,
      property = prop, initialValue = cur, range_anim = target - cur, easing = easeInQuad\<rparr>"
  define p1 where "p1 = p\<lparr>animationBuffer := animationBuffer p @ [t]\<rparr>"
  have undef: "Easing ''undefined'' = None"
    by (simp add: Easing_def Easing_table_def)
  have enq: "animate DEBUG [(prop, target)] (real N) (CbFunction cb) None p = Returned p1"
    using assms(2)
    by (simp add: animate_def easing_given_def callback_given_def easing_or_default_def
        undef p1_def t_def)
  have buf1: "animationBuffer p1 = animationBuffer p @ [t\<lparr>frame := real N - real 0\<rparr>]"
    by (simp add: p1_def t_def)
  have len: "length_anim t = real N" by (simp add: t_def)
  have "0 + N \<le> N" by simp
  from countdown [OF this buf1 len assms(3) assms(4), of r]
  obtain xs pN eN where
    run: "updates N r (p1, e) = Returned (pN, eN)"
      "animationBuffer pN = xs @ [t\<lparr>frame := real N - real (0 + N)\<rparr>]"
      "0 < N \<longrightarrow> props pN (property t) =
          Num (initialValue t + easing t (real (0 + N)) 0 (range_anim t) (real N))"
      "quiet_queue cb xs" "\<not> called eN cb"
      "fired cb (trace eN) = fired cb (trace e)"
    by blast
  have val: "props pN prop = Num target"
    using run(3) assms(1) by (simp add: t_def easeInQuad_def)
  have fin: "frame (t\<lparr>frame := real N - real (0 + N)\<rparr>) = 0"
    and cbt: "callback (t\<lparr>frame := real N - real (0 + N)\<rparr>) = Some cb"
    by (simp_all add: t_def)
  from update_finished_last [OF run(4) fin cbt run(2) run(5) assms(5), of r]
  obtain pM eM where
    last: "Primitive_update r pN eN = Returned (pM, eM)"
      "quiet_queue cb (animationBuffer pM)" "called eM cb"
      "fired cb (trace eM) = fired cb (trace eN) + 1"
    by blast
  from enq run(1) val run(6) last show ?thesis by simp
qed

theorem animate_then_updates_witness:
  "(0::nat) < 10 \<and> props dot ''x'' = Num 0 \<and> quiet_queue (Returns 7) (animationBuffer dot)
   \<and> \<not> called no_calls (Returns 7) \<and> \<not> throws (Returns 7)
   \<and> (\<exists>p1 pN eN pM eM.
           animate True [(''x'', 100)] (real (10::nat)) (CbFunction (Returns 7)) None dot = Returned p1
         \<and> updates 10 0 (p1, no_calls) = Returned (pN, eN)
         \<and> props pN ''x'' = Num 100
         \<and> fired (Returns 7) (trace eN) = fired (Returns 7) (trace no_calls)
         \<and> Primitive_update 0 pN eN = Returned (pM, eM)
         \<and> fired (Returns 7) (trace eM) = fired (Returns 7) (trace no_calls) + 1
         \<and> called eM (Returns 7)
         \<and> quiet_queue (Returns 7) (animationBuffer pM))"
proof -
  have h1: "(0::nat) < 10" by simp
  have h4: "\<not> called no_calls (Returns 7)" by (simp add: no_calls_def)
  have h5: "\<not> throws (Returns 7)" by simp
  from animate_then_updates [OF h1 dot_x dot_quiet h4 h5, of True 100 0] h1 dot_x dot_quiet h4 h5
  show ?thesis by blast
qed

text \<open>
  The claim fails at \<^verbatim>\<open>animate({x: 100}, 10, cb)\<close> from \<^verbatim>\<open>x = 0\<close>: ten calls of
  \<^verbatim>\<open>update()\<close> return and leave \<^verbatim>\<open>x = 100\<close>, and cb has been called zero times.
\<close>

theorem callback_after_N_updates_counterexample:
  "returned (updates 10 0
      (state_of (animate True [(''x'', 100)] 10 (CbFunction (Returns 7)) None dot), no_calls))
   \<and> props (fst (state_of (updates 10 0
      (state_of (animate True [(''x'', 100)] 10 (CbFunction (Returns 7)) None dot), no_calls))))
        ''x'' = Num 100
   \<and> fired (Returns 7) (trace (snd (state_of (updates 10 0
      (state_of (animate True [(''x'', 100)] 10 (CbFunction (Returns 7)) None dot), no_calls)))))
      = 0"
proof -
  have undef: "Easing ''undefined'' = None"
    by (simp add: Easing_def Easing_table_def)
  have enq: "animate True [(''x'', 100)] 10 (CbFunction (Returns 7)) None dot
      = Returned (dot\<lparr>animationBuffer := [\<lparr>frame = 10, length_anim = 10, callback = Some (Returns 7),
      property = ''x'', initialValue = 0, range_anim = 100, easing = easeInQuad\<rparr>]\<rparr>)"
    by (simp add: animate_def easing_given_def callback_given_def easing_or_default_def
        undef dot_x dot_buf)
  show ?thesis
    by (simp add: enq updates_numeral Primitive_update_def Let_def animation_update_def
        easeInQuad_def no_calls_def)
qed

section \<open>update: the tasks of one animate call share its callback\<close>

lemma valid_tasks_all:
  "\<forall>(k, t) \<in> set properties. is_number (ps k) \<Longrightarrow>
     length (valid_tasks ps frames cb ease properties) = length properties
     \<and> (\<forall>a \<in> set (valid_tasks ps frames cb ease properties). frame a = frames \<and> callback a = cb)"
proof (induction properties)
  case Nil
  show ?case by simp
next
  case (Cons kt properties)
  obtain k t where kt: "kt = (k, t)" by (cases kt)
  from Cons.prems kt obtain cur where cur: "ps k = Num cur"
    by (cases "ps k") auto
  from Cons.prems have "\<forall>(k, t) \<in> set properties. is_number (ps k)" by simp
  from Cons.IH [OF this] cur show ?case by (simp add: kt)
qed

lemma update_loop_active_block:
  "\<forall>a \<in> set ts. frame a \<noteq> 0 \<Longrightarrow>
   \<exists>this'. update_loop r ts seen nb this e
            = Returned (nb @ map (\<lambda>a. a\<lparr>frame := frame a - 1\<rparr>) ts, this', e)"
proof (induction ts arbitrary: seen nb this)
  case Nil
  show ?case by simp
next
  case (Cons a ts)
  from Cons.prems have act: "frame a \<noteq> 0" and rest: "\<forall>a \<in> set ts. frame a \<noteq> 0" by simp_all
  define a1 where "a1 = a\<lparr>frame := frame a - 1\<rparr>"
  define this1 where "this1 = animation_update this (length_anim a - frame a) (property a)
       (initialValue a + easing a ((length_anim a - frame a) + 1) 0 (range_anim a) (length_anim a))"
  from Cons.IH [OF rest, of "seen @ [a1]" "nb @ [a1]" this1] obtain this' where
    ih: "update_loop r ts (seen @ [a1]) (nb @ [a1]) this1 e
           = Returned ((nb @ [a1]) @ map (\<lambda>a. a\<lparr>frame := frame a - 1\<rparr>) ts, this', e)"
    by blast
  have "update_loop r (a # ts) seen nb this e
      = Returned (nb @ map (\<lambda>a. a\<lparr>frame := frame a - 1\<rparr>) (a # ts), this', e)"
    using act ih by (simp add: a1_def this1_def Let_def)
  then show ?case by blast
qed

lemma update_loop_marked_block:
  "called e cb \<Longrightarrow> \<forall>a \<in> set ts. frame a = 0 \<and> callback a = Some cb \<Longrightarrow>
   update_loop r ts seen nb this e = Returned (nb, this, e)"
  by (induction ts arbitrary: seen) simp_all

lemma update_loop_finished_block:
  assumes "ts \<noteq> []" and "\<forall>a \<in> set ts. frame a = 0 \<and> callback a = Some cb"
      and "\<not> called e cb" and "\<not> throws cb"
  shows "update_loop r ts seen nb this e
           = Returned (nb, this, e\<lparr>trace := trace e @ [Completion r cb],
                                    called := (called e)(cb := True)\<rparr>)"
proof -
  from assms(1) obtain a rest where ts: "ts = a # rest" by (cases ts) auto
  with assms(2) have a: "frame a = 0" "callback a = Some cb"
    and rest: "\<forall>a \<in> set rest. frame a = 0 \<and> callback a = Some cb" by simp_all
  define e2 where "e2 = e\<lparr>trace := trace e @ [Completion r cb], called := (called e)(cb := True)\<rparr>"
  have c2: "called e2 cb" by (simp add: e2_def)
  have "update_loop r (a # rest) seen nb this e = update_loop r rest (seen @ [a]) nb this e2"
    using a assms(3,4) by (simp add: e2_def Let_def)
  also have "\<dots> = Returned (nb, this, e2)"
    using update_loop_marked_block [OF c2 rest] by simp
  finally show ?thesis by (simp add: ts e2_def)
qed

lemma update_active_block:
  assumes q: "quiet_queue cb xs" and act: "\<forall>a \<in> set ts. frame a \<noteq> 0"
      and buf: "animationBuffer p = xs @ ts"
  shows "\<exists>xs' p' e'. Primitive_update r p e = Returned (p', e')
           \<and> animationBuffer p' = xs' @ map (\<lambda>a. a\<lparr>frame := frame a - 1\<rparr>) ts
           \<and> quiet_queue cb xs' \<and> called e' cb = called e cb
           \<and> fired cb (trace e') = fired cb (trace e)"
proof (cases "animationBuffer p = []")
  case True
  with buf have "xs = []" "ts = []" by simp_all
  with True show ?thesis by (simp add: Primitive_update_def quiet_queue_def)
next
  case False
  from update_loop_quiet [OF q, of r "[]" "[]" "props p" e]
  obtain nb' this' e' seen' where
    pre: "\<forall>ys. update_loop r (xs @ ys) [] [] (props p) e = update_loop r ys seen' ([] @ nb') this' e'"
      "quiet_queue cb nb'" "called e' cb = called e cb"
      "fired cb (trace e') = fired cb (trace e)"
    by blast
  from update_loop_active_block [OF act, of r seen' nb' this' e'] obtain this'' where
    blk: "update_loop r ts seen' nb' this' e'
            = Returned (nb' @ map (\<lambda>a. a\<lparr>frame := frame a - 1\<rparr>) ts, this'', e')"
    by blast
  have "update_loop r (xs @ ts) [] [] (props p) e
      = Returned (nb' @ map (\<lambda>a. a\<lparr>frame := frame a - 1\<rparr>) ts, this'', e')"
    using pre(1) blk by simp
  then have "Primitive_update r p e =
      Returned (p\<lparr>props := this'',
                  animationBuffer := nb' @ map (\<lambda>a. a\<lparr>frame := frame a - 1\<rparr>) ts\<rparr>, e')"
    using buf False by (simp add: Primitive_update_def)
  with pre(2,3,4) show ?thesis by simp
qed

lemma update_finished_block:
  assumes q: "quiet_queue cb xs" and ne: "ts \<noteq> []"
      and fin: "\<forall>a \<in> set ts. frame a = 0 \<and> callback a = Some cb"
      and buf: "animationBuffer p = xs @ ts"
      and fresh: "\<not> called e cb" and nt: "\<not> throws cb"
  shows "\<exists>p' e'. Primitive_update r p e = Returned (p', e')
           \<and> quiet_queue cb (animationBuffer p') \<and> called e' cb
           \<and> fired cb (trace e') = fired cb (trace e) + 1"
proof -
  from update_loop_quiet [OF q, of r "[]" "[]" "props p" e]
  obtain nb' this' e' seen' where
    pre: "\<forall>ys. update_loop r (xs @ ys) [] [] (props p) e = update_loop r ys seen' ([] @ nb') this' e'"
      "quiet_queue cb nb'" "called e' cb = called e cb"
      "fired cb (trace e') = fired cb (trace e)"
    by blast
  define e2 where "e2 = e'\<lparr>trace := trace e' @ [Completion r cb], called := (called e')(cb := True)\<rparr>"
  from pre(3) fresh have fresh': "\<not> called e' cb" by simp
  have "update_loop r (xs @ ts) [] [] (props p) e = Returned (nb', this', e2)"
    using pre(1) update_loop_finished_block [OF ne fin fresh' nt, of r seen' nb' this']
    by (simp add: e2_def)
  moreover from ne buf have "animationBuffer p \<noteq> []" by simp
  ultimately have "Primitive_update r p e
      = Returned (p\<lparr>props := this', animationBuffer := nb'\<rparr>, e2)"
    using buf by (simp add: Primitive_update_def)
  moreover have "called e2 cb" "fired cb (trace e2) = fired cb (trace e) + 1"
    using pre(4) by (simp_all add: e2_def fired_append)
  ultimately show ?thesis using pre(2) by simp
qed

lemma countdown_block:
  fixes N :: nat
  assumes "j + k \<le> N"
      and "animationBuffer p = xs @ map (\<lambda>a. a\<lparr>frame := real N - real j\<rparr>) ts"
      and "quiet_queue cb xs"
      and "\<not> called e cb"
  shows "\<exists>xs' p' e'. updates k r (p, e) = Returned (p', e')
           \<and> animationBuffer p' = xs' @ map (\<lambda>a. a\<lparr>frame := real N - real (j + k)\<rparr>) ts
           \<and> quiet_queue cb xs' \<and> \<not> called e' cb
           \<and> fired cb (trace e') = fired cb (trace e)"
  using assms
proof (induction k arbitrary: j p e xs)
  case 0
  then show ?case by simp
next
  case (Suc k)
  let ?ts = "map (\<lambda>a. a\<lparr>frame := real N - real j\<rparr>) ts"
  from Suc.prems(1) have act: "\<forall>a \<in> set ?ts. frame a \<noteq> 0" by simp
  from update_active_block [OF Suc.prems(3) act Suc.prems(2), of r e]
  obtain xs1 p1 e1 where
    one: "Primitive_update r p e = Returned (p1, e1)"
      "animationBuffer p1 = xs1 @ map (\<lambda>a. a\<lparr>frame := frame a - 1\<rparr>) ?ts"
      "quiet_queue cb xs1" "called e1 cb = called e cb"
      "fired cb (trace e1) = fired cb (trace e)"
    by blast
  have buf1: "animationBuffer p1 = xs1 @ map (\<lambda>a. a\<lparr>frame := real N - real (Suc j)\<rparr>) ts"
    using one(2) by (simp add: comp_def)
  from Suc.prems(1) have le: "Suc j + k \<le> N" by simp
  from one(4) Suc.prems(4) have fresh1: "\<not> called e1 cb" by simp
  from Suc.IH [OF le buf1 one(3) fresh1]
  obtain xs' p' e' where
    rest: "updates k r (p1, e1) = Returned (p', e')"
      "animationBuffer p' = xs' @ map (\<lambda>a. a\<lparr>frame := real N - real (Suc j + k)\<rparr>) ts"
      "quiet_queue cb xs'" "\<not> called e' cb"
      "fired cb (trace e') = fired cb (trace e1)"
    by blast
  have "updates (Suc k) r (p, e) = Returned (p', e')"
    using one(1) rest(1) by simp
  with rest(2,3,4,5) one(5) show ?case by simp
qed

lemma pair_eq:
  "pair = dot\<lparr>animationBuffer :=
      [\<lparr>frame = 1, length_anim = 1, callback = Some (Returns 3), property = ''x'',
         initialValue = 0, range_anim = 5, easing = easeInQuad\<rparr>,
       \<lparr>frame = 1, length_anim = 1, callback = Some (Returns 3), property = ''y'',
         initialValue = 0, range_anim = 7, easing = easeInQuad\<rparr>]\<rparr>"
proof -
  have undef: "Easing ''undefined'' = None"
    by (simp add: Easing_def Easing_table_def)
  show ?thesis
    by (simp add: pair_def animate_def easing_given_def callback_given_def easing_or_default_def
        undef dot_x dot_y dot_buf)
qed

lemma pair_run:
  "updates 2 0 (pair, no_calls) =
     Returned (dot\<lparr>props := (props dot)(''x'' := Num 5, ''y'' := Num 7), animationBuffer := []\<rparr>,
               \<lparr>called = (\<lambda>f. False)(Returns 3 := True), trace = [Completion 0 (Returns 3)]\<rparr>)"
  by (simp add: pair_eq updates_numeral Primitive_update_def Let_def animation_update_def
        easeInQuad_def no_calls_def dot_buf)

text \<open>
  C4. As stated the claim fails: \<^verbatim>\<open>update\<close> calls a finished task's callback only
  while the callback's \<^verbatim>\<open>called\<close> member is unset, and sets the member when it calls
  it. The tasks that one call of \<^verbatim>\<open>animate\<close> enqueues all carry the call's callback,
  so the call reports its completion once, not once for each task. What holds for
  \<^verbatim>\<open>animate(properties, N, cb)\<close> with at least one entry, every listed property
  numeric, a callback cb that returns and is not marked called, and a queue whose other
  tasks carry returning callbacks other than cb: whatever DEBUG is, the call enqueues one
  task for each entry, each carrying cb; N calls of \<^verbatim>\<open>update()\<close> return and do not
  call cb; call N + 1 returns, calls cb exactly once, marks it called, and leaves no
  task carrying cb in the queue.
\<close>

theorem one_call_shared_callback:
  fixes N :: nat
  assumes "properties \<noteq> []"
      and "\<forall>(k, t) \<in> set properties. is_number (props p k)"
      and "quiet_queue cb (animationBuffer p)"
      and "\<not> called e cb"
      and "\<not> throws cb"
  shows "\<exists>p1 pN eN pM eM.
           animate DEBUG properties (real N) (CbFunction cb) None p = Returned p1
         \<and> length (animationBuffer p1) = length (animationBuffer p) + length properties
         \<and> (\<forall>a \<in> set (drop (length (animationBuffer p)) (animationBuffer p1)).
                callback a = Some cb)
         \<and> updates N r (p1, e) = Returned (pN, eN)
         \<and> fired cb (trace eN) = fired cb (trace e)
         \<and> Primitive_update r pN eN = Returned (pM, eM)
         \<and> fired cb (trace eM) = fired cb (trace e) + 1
         \<and> called eM cb
         \<and> quiet_queue cb (animationBuffer pM)"
proof -
  define ts where "ts = valid_tasks (props p) (real N) (Some cb) easeInQuad properties"
  define p1 where "p1 = p\<lparr>animationBuffer := animationBuffer p @ ts\<rparr>"
  have undef: "Easing ''undefined'' = None"
    by (simp add: Easing_def Easing_table_def)
  have enq: "animate DEBUG properties (real N) (CbFunction cb) None p = Returned p1"
    using animate_loop_all_valid [OF assms(2)]
    by (simp add: animate_def easing_given_def callback_given_def easing_or_default_def
        undef p1_def ts_def)
  from valid_tasks_all [OF assms(2), of "real N" "Some cb" easeInQuad]
  have len: "length ts = length properties"
    and all: "\<forall>a \<in> set ts. frame a = real N \<and> callback a = Some cb"
    by (simp_all add: ts_def)
  from len assms(1) have ne: "ts \<noteq> []" by auto
  have len1: "length (animationBuffer p1) = length (animationBuffer p) + length properties"
    by (simp add: p1_def len)
  have cbs: "\<forall>a \<in> set (drop (length (animationBuffer p)) (animationBuffer p1)). callback a = Some cb"
    using all by (simp add: p1_def)
  have same: "map (\<lambda>a. a\<lparr>frame := real N - real 0\<rparr>) ts = ts"
    using all by (simp add: map_idI)
  have buf1: "animationBuffer p1 = animationBuffer p @ map (\<lambda>a. a\<lparr>frame := real N - real 0\<rparr>) ts"
    by (simp only: same) (simp add: p1_def)
  have "0 + N \<le> N" by simp
  from countdown_block [OF this buf1 assms(3) assms(4), of r]
  obtain xs pN eN where
    run: "updates N r (p1, e) = Returned (pN, eN)"
      "animationBuffer pN = xs @ map (\<lambda>a. a\<lparr>frame := real N - real (0 + N)\<rparr>) ts"
      "quiet_queue cb xs" "\<not> called eN cb"
      "fired cb (trace eN) = fired cb (trace e)"
    by blast
  let ?done = "map (\<lambda>a. a\<lparr>frame := real N - real (0 + N)\<rparr>) ts"
  have ne': "?done \<noteq> []" using ne by simp
  have fin: "\<forall>a \<in> set ?done. frame a = 0 \<and> callback a = Some cb"
    using all by simp
  from update_finished_block [OF run(3) ne' fin run(2) run(4) assms(5), of r]
  obtain pM eM where
    last: "Primitive_update r pN eN = Returned (pM, eM)"
      "quiet_queue cb (animationBuffer pM)" "called eM cb"
      "fired cb (trace eM) = fired cb (trace eN) + 1"
    by blast
  from enq len1 cbs run(1,5) last show ?thesis by simp
qed

theorem one_call_shared_callback_witness:
  "[(''x'', 5), (''y'', 7)] \<noteq> ([] :: (string \<times> real) list)
   \<and> is_number (props dot ''x'') \<and> is_number (props dot ''y'')
   \<and> quiet_queue (Returns 3) (animationBuffer dot)
   \<and> \<not> called no_calls (Returns 3) \<and> \<not> throws (Returns 3)
   \<and> (\<exists>p1 pN eN pM eM.
           animate True [(''x'', 5), (''y'', 7)] (real (1::nat)) (CbFunction (Returns 3)) None dot
             = Returned p1
         \<and> length (animationBuffer p1) = length (animationBuffer dot) + 2
         \<and> (\<forall>a \<in> set (drop (length (animationBuffer dot)) (animationBuffer p1)).
                callback a = Some (Returns 3))
         \<and> updates 1 0 (p1, no_calls) = Returned (pN, eN)
         \<and> fired (Returns 3) (trace eN) = fired (Returns 3) (trace no_calls)
         \<and> Primitive_update 0 pN eN = Returned (pM, eM)
         \<and> fired (Returns 3) (trace eM) = fired (Returns 3) (trace no_calls) + 1
         \<and> called eM (Returns 3)
         \<and> quiet_queue (Returns 3) (animationBuffer pM))"
proof -
  have h1: "[(''x'', 5), (''y'', 7)] \<noteq> ([] :: (string \<times> real) list)" by simp
  have hx: "is_number (props dot ''x'')" and hy: "is_number (props dot ''y'')"
    by (simp_all add: dot_x dot_y)
  then have h2: "\<forall>(k, t) \<in> set [(''x'', 5 :: real), (''y'', 7)]. is_number (props dot k)"
    by simp
  have h4: "\<not> called no_calls (Returns 3)" by (simp add: no_calls_def)
  have h5: "\<not> throws (Returns 3)" by simp
  from one_call_shared_callback [OF h1 h2 dot_quiet h4 h5, of True 1 0]
  have "\<exists>p1 pN eN pM eM.
           animate True [(''x'', 5), (''y'', 7)] (real (1::nat)) (CbFunction (Returns 3)) None dot
             = Returned p1
         \<and> length (animationBuffer p1) = length (animationBuffer dot) + 2
         \<and> (\<forall>a \<in> set (drop (length (animationBuffer dot)) (animationBuffer p1)).
                callback a = Some (Returns 3))
         \<and> updates 1 0 (p1, no_calls) = Returned (pN, eN)
         \<and> fired (Returns 3) (trace eN) = fired (Returns 3) (trace no_calls)
         \<and> Primitive_update 0 pN eN = Returned (pM, eM)
         \<and> fired (Returns 3) (trace eM) = fired (Returns 3) (trace no_calls) + 1
         \<and> called eM (Returns 3)
         \<and> quiet_queue (Returns 3) (animationBuffer pM)"
    by simp
  with h1 hx hy dot_quiet h4 h5 show ?thesis by blast
qed

text \<open>
  The claim fails for the two tasks of \<open>pair\<close>, which carry one callback: after two
  calls of \<^verbatim>\<open>update()\<close> both tasks have finished and left the queue, and the callback
  has been called once, not once for each task.
\<close>

theorem one_call_shared_callback_counterexample:
  "map callback (animationBuffer pair) = [Some (Returns 3), Some (Returns 3)]
   \<and> animationBuffer (fst (state_of (updates 2 0 (pair, no_calls)))) = []
   \<and> fired (Returns 3) (trace (snd (state_of (updates 2 0 (pair, no_calls))))) = 1"
  by (simp add: pair_run) (simp add: pair_eq)

section \<open>objectsUnder\<close>

lemma indexOf_minus1: "(indexOf xs v = -1) = (v \<notin> set xs)"
proof (cases "v \<in> set xs")
  case True
  from indexOf_from_present [OF True, of 0] obtain n where "indexOf_from xs v 0 = 0 + int n"
    by blast
  with True show ?thesis by (simp add: indexOf_def)
next
  case False
  then show ?thesis by (simp add: indexOf_def indexOf_from_absent)
qed

lemma objectsUnder_loop_all:
  "\<forall>r \<in> set reg. isInside (h r) \<noteq> None \<Longrightarrow>
   objectsUnder_loop h reg x y found = Inr (found @ filter (inside h x y) reg)"
proof (induction reg arbitrary: found)
  case Nil
  then show ?case by simp
next
  case (Cons r reg)
  from Cons.prems obtain f where f: "isInside (h r) = Some f" by auto
  from Cons.prems have rest: "\<forall>r \<in> set reg. isInside (h r) \<noteq> None" by simp
  show ?case using f by (simp add: Cons.IH [OF rest] inside_def)
qed

lemma objectsUnder_all:
  "\<forall>r \<in> set reg. isInside (h r) \<noteq> None \<Longrightarrow>
   objectsUnder h reg x y = Inr (filter (inside h x y) reg)"
  by (simp add: objectsUnder_def objectsUnder_loop_all)

lemma objectsUnder_loop_missing:
  "\<exists>r \<in> set reg. isInside (h r) = None \<Longrightarrow> objectsUnder_loop h reg x y found = Inl TypeError"
proof (induction reg arbitrary: found)
  case Nil
  then show ?case by simp
next
  case (Cons r reg)
  show ?case
  proof (cases "isInside (h r)")
    case None
    then show ?thesis by simp
  next
    case (Some f)
    with Cons.prems have "\<exists>r \<in> set reg. isInside (h r) = None" by auto
    from Cons.IH [OF this] Some show ?thesis by simp
  qed
qed

lemma objectsUnder_Inr:
  "objectsUnder h reg x y = Inr current \<Longrightarrow>
     (\<forall>r \<in> set reg. isInside (h r) \<noteq> None) \<and> current = filter (inside h x y) reg"
proof -
  assume a: "objectsUnder h reg x y = Inr current"
  have all: "\<forall>r \<in> set reg. isInside (h r) \<noteq> None"
  proof (rule ccontr)
    assume "\<not> (\<forall>r \<in> set reg. isInside (h r) \<noteq> None)"
    then have "\<exists>r \<in> set reg. isInside (h r) = None" by simp
    from objectsUnder_loop_missing [OF this, of x y "[]"] a show False
      by (simp add: objectsUnder_def)
  qed
  with a show ?thesis by (simp add: objectsUnder_all)
qed

lemma axis_eq:
  "axis = \<lparr>props = Primitive_defaults(''mouseEnabled'' := Bool False, ''x'' := Num 20,
                      ''y'' := Num 210, ''length'' := Num 340),
           animationBuffer = [], events = [], isInside = None, render = Some (Returns 1)\<rparr>"
  by (simp add: axis_def Primitive_new_def axis_definition_def no_calls_def)

lemma dot_inside: "inside (\<lambda>r. dot) 1 2 r"
  by (simp add: inside_def dot_eq point_isInside_def js_minus_def Primitive_defaults_def)

text \<open>
  C2. \<^verbatim>\<open>objectsUnder\<close> calls \<^verbatim>\<open>primitive.isInside\<close> on every registered primitive
  without looking whether it has one. The line chart registers its axes, whose
  definition has no \<^verbatim>\<open>isInside\<close>: with such an axis in the registry the query does not
  skip it, it throws a TypeError and returns nothing. (When every registered primitive
  has an \<^verbatim>\<open>isInside\<close>, the result is the registry filtered by it, in order:
  \<open>objectsUnder_all\<close>.)
\<close>

theorem objectsUnder_axis_TypeError:
  "Aristochart_Primitive True (Some []) axis_definition
      = Inr \<lparr>kind_style = Some [], kind_obj = axis_definition\<rparr>
   \<and> objectsUnder (\<lambda>r. axis) [0] 50 50 = Inl TypeError"
  by (simp add: Aristochart_Primitive_def axis_definition_def objectsUnder_def axis_eq)

text \<open>
  C6. A point defined without events is constructed with \<^verbatim>\<open>mouseEnabled = false\<close>,
  yet \<^verbatim>\<open>objectsUnder\<close> never reads that flag: with the pointer inside the point, the
  query result holds it (and the hover tick puts it into the hover buffer:
  \<open>mouse_disabled_primitive_is_hovered\<close>).
\<close>

theorem mouse_disabled_primitive_is_hit:
  "registry hovering = [0]
   \<and> props (heap hovering 0) ''mouseEnabled'' = Bool False
   \<and> objectsUnder (heap hovering) (registry hovering) (mouseX hovering) (mouseY hovering)
       = Inr [0]"
proof -
  have m: "props dot ''mouseEnabled'' = Bool False"
    by (simp add: dot_eq Primitive_defaults_def)
  have ins: "isInside dot = Some point_isInside" by (simp add: dot_eq)
  have "objectsUnder (\<lambda>r. dot) [0] 1 2 = Inr [0]"
    using dot_inside [of 0] by (simp add: objectsUnder_all ins)
  with m show ?thesis by (simp add: hovering_def)
qed

lemma mouse_disabled_primitive_is_hovered:
  "mouseBuffer (state_of (pointer_dispatch hovering)) = [0]"
proof -
  have ins: "isInside dot = Some point_isInside" by (simp add: dot_eq)
  have u: "objectsUnder (\<lambda>r. dot) [0] 1 2 = Inr [0]"
    using dot_inside [of 0] by (simp add: objectsUnder_all ins)
  have ev: "events dot = []" by (simp add: dot_eq)
  have mo: "props dot ''_mouseover'' = Undefined" by (simp add: dot_eq Primitive_defaults_def)
  show ?thesis
    by (simp add: pointer_dispatch_def hovering_def u fire_def ev mo set_mouseover_def
        indexOf_def)
qed

section \<open>Pointer dispatch: the hover tick\<close>

lemma fire_returns:
  "handlers_return (heap c) \<Longrightarrow>
   fire name r c = Returned (c\<lparr>cenv := (cenv c)\<lparr>trace := trace (cenv c) @ handler_call (heap c) name r\<rparr>\<rparr>)"
  by (cases "map_of (events (heap c r)) name")
     (auto simp add: fire_def handler_call_def handlers_return_def Let_def)

lemma handler_call_cong:
  "\<forall>r. events (h' r) = events (h r) \<Longrightarrow> handler_call h' name r = handler_call h name r"
  by (simp add: handler_call_def)

lemma handlers_return_cong:
  "\<forall>r. events (h' r) = events (h r) \<Longrightarrow> handlers_return h' = handlers_return h"
  by (simp add: handlers_return_def)

lemma targets_append: "targets name (xs @ ys) = targets name xs @ targets name ys"
  by (induction name xs rule: targets.induct) auto

lemma targets_handler_call:
  "targets name (handler_call h n r) = (if n = name \<and> handles h name r then [r] else [])"
  by (auto simp add: handler_call_def handles_def split: option.splits)

lemma targets_calls:
  "targets name (concat (map (\<lambda>r. handler_call h (nm r) r) rs))
     = filter (\<lambda>r. nm r = name \<and> handles h name r) rs"
  by (induction rs) (auto simp add: targets_append targets_handler_call)

lemma hover_current_returns:
  assumes "distinct rs"
      and "\<forall>r. flagged c r = (r \<in> set (mouseBuffer c))"
      and "handlers_return (heap c)"
  shows "\<exists>c'. hover_current rs c = Returned c'
           \<and> mouseBuffer c' = mouseBuffer c @ filter (\<lambda>r. r \<notin> set (mouseBuffer c)) rs
           \<and> trace (cenv c') = trace (cenv c) @
                concat (map (\<lambda>r. handler_call (heap c)
                   (if r \<in> set (mouseBuffer c) then ''mousemove'' else ''mouseover'') r) rs)
           \<and> (\<forall>r. events (heap c' r) = events (heap c r))
           \<and> (\<forall>r. flagged c' r = (r \<in> set (mouseBuffer c')))
           \<and> mouseX c' = mouseX c \<and> mouseY c' = mouseY c"
  using assms
proof (induction rs arbitrary: c)
  case Nil
  then show ?case by simp
next
  case (Cons r rs)
  from Cons.prems(1) have d: "distinct rs" and nr: "r \<notin> set rs" by simp_all
  show ?case
  proof (cases "r \<in> set (mouseBuffer c)")
    case True
    with Cons.prems(2) have fl: "flagged c r" by simp
    define c1 where "c1 = c\<lparr>cenv := (cenv c)\<lparr>trace := trace (cenv c) @ handler_call (heap c) ''mousemove'' r\<rparr>\<rparr>"
    have step: "hover_current (r # rs) c = hover_current rs c1"
      using fl fire_returns [OF Cons.prems(3), of "''mousemove''" r]
      by (simp add: flagged_def c1_def)
    have inv1: "\<forall>q. flagged c1 q = (q \<in> set (mouseBuffer c1))"
      using Cons.prems(2) by (simp add: c1_def flagged_def)
    have hr1: "handlers_return (heap c1)" using Cons.prems(3) by (simp add: c1_def)
    from Cons.IH [OF d inv1 hr1] obtain c' where
      r: "hover_current rs c1 = Returned c'"
         "mouseBuffer c' = mouseBuffer c1 @ filter (\<lambda>r. r \<notin> set (mouseBuffer c1)) rs"
         "trace (cenv c') = trace (cenv c1) @
                concat (map (\<lambda>r. handler_call (heap c1)
                   (if r \<in> set (mouseBuffer c1) then ''mousemove'' else ''mouseover'') r) rs)"
         "\<forall>r. events (heap c' r) = events (heap c1 r)"
         "\<forall>r. flagged c' r = (r \<in> set (mouseBuffer c'))"
         "mouseX c' = mouseX c1 \<and> mouseY c' = mouseY c1"
      by blast
    have "hover_current (r # rs) c = Returned c'" using step r(1) by simp
    moreover have "mouseBuffer c' = mouseBuffer c @ filter (\<lambda>r. r \<notin> set (mouseBuffer c)) (r # rs)"
      using r(2) True by (simp add: c1_def)
    moreover have "trace (cenv c') = trace (cenv c) @
                concat (map (\<lambda>r. handler_call (heap c)
                   (if r \<in> set (mouseBuffer c) then ''mousemove'' else ''mouseover'') r) (r # rs))"
      using r(3) True by (simp add: c1_def)
    moreover have "\<forall>r. events (heap c' r) = events (heap c r)"
      using r(4) by (simp add: c1_def)
    moreover have "mouseX c' = mouseX c \<and> mouseY c' = mouseY c"
      using r(6) by (simp add: c1_def)
    ultimately show ?thesis using r(5) by blast
  next
    case False
    with Cons.prems(2) have fl: "\<not> flagged c r" by simp
    define c0 where "c0 = c\<lparr>cenv := (cenv c)\<lparr>trace := trace (cenv c) @ handler_call (heap c) ''mouseover'' r\<rparr>\<rparr>"
    define c1 where "c1 = (set_mouseover r True c0)\<lparr>mouseBuffer := mouseBuffer c0 @ [r]\<rparr>"
    have step: "hover_current (r # rs) c = hover_current rs c1"
      using fl fire_returns [OF Cons.prems(3), of "''mouseover''" r]
      by (simp add: flagged_def c1_def c0_def)
    have buf1: "mouseBuffer c1 = mouseBuffer c @ [r]"
      by (simp add: c1_def c0_def set_mouseover_def)
    have ev1: "\<forall>q. events (heap c1 q) = events (heap c q)"
      by (simp add: c1_def c0_def set_mouseover_def)
    have inv1: "\<forall>q. flagged c1 q = (q \<in> set (mouseBuffer c1))"
      using Cons.prems(2) by (auto simp add: c1_def c0_def flagged_def set_mouseover_def)
    have hr1: "handlers_return (heap c1)"
      using Cons.prems(3) handlers_return_cong [OF ev1] by simp
    from Cons.IH [OF d inv1 hr1] obtain c' where
      r: "hover_current rs c1 = Returned c'"
         "mouseBuffer c' = mouseBuffer c1 @ filter (\<lambda>r. r \<notin> set (mouseBuffer c1)) rs"
         "trace (cenv c') = trace (cenv c1) @
                concat (map (\<lambda>r. handler_call (heap c1)
                   (if r \<in> set (mouseBuffer c1) then ''mousemove'' else ''mouseover'') r) rs)"
         "\<forall>r. events (heap c' r) = events (heap c1 r)"
         "\<forall>r. flagged c' r = (r \<in> set (mouseBuffer c'))"
         "mouseX c' = mouseX c1 \<and> mouseY c' = mouseY c1"
      by blast
    have same_filter: "filter (\<lambda>q. q \<notin> set (mouseBuffer c1)) rs = filter (\<lambda>q. q \<notin> set (mouseBuffer c)) rs"
      using nr by (auto simp add: buf1 intro: filter_cong)
    have same_calls: "map (\<lambda>q. handler_call (heap c1)
                   (if q \<in> set (mouseBuffer c1) then ''mousemove'' else ''mouseover'') q) rs
        = map (\<lambda>q. handler_call (heap c)
                   (if q \<in> set (mouseBuffer c) then ''mousemove'' else ''mouseover'') q) rs"
      using nr handler_call_cong [OF ev1] by (auto simp add: buf1)
    have tr1: "trace (cenv c1) = trace (cenv c) @ handler_call (heap c) ''mouseover'' r"
      by (simp add: c1_def c0_def set_mouseover_def)
    have "hover_current (r # rs) c = Returned c'" using step r(1) by simp
    moreover have "mouseBuffer c' = mouseBuffer c @ filter (\<lambda>r. r \<notin> set (mouseBuffer c)) (r # rs)"
      using r(2) False same_filter by (simp add: buf1)
    moreover have "trace (cenv c') = trace (cenv c) @
                concat (map (\<lambda>r. handler_call (heap c)
                   (if r \<in> set (mouseBuffer c) then ''mousemove'' else ''mouseover'') r) (r # rs))"
      using r(3) False same_calls tr1 by simp
    moreover have "\<forall>r. events (heap c' r) = events (heap c r)"
      using r(4) ev1 by simp
    moreover have "mouseX c' = mouseX c \<and> mouseY c' = mouseY c"
      using r(6) by (simp add: c1_def c0_def set_mouseover_def)
    ultimately show ?thesis using r(5) by blast
  qed
qed

lemma hover_buffer_returns:
  assumes "handlers_return (heap c)"
  shows "\<exists>c'. hover_buffer buf current kept c = Returned c'
           \<and> mouseBuffer c' = kept @ filter (\<lambda>r. r \<in> set current) buf
           \<and> trace (cenv c') = trace (cenv c) @
                concat (map (\<lambda>r. handler_call (heap c) ''mouseout'' r)
                          (filter (\<lambda>r. r \<notin> set current) buf))
           \<and> (\<forall>r. events (heap c' r) = events (heap c r))
           \<and> (\<forall>r. flagged c' r = (flagged c r \<and> \<not> (r \<in> set buf \<and> r \<notin> set current)))
           \<and> mouseX c' = mouseX c \<and> mouseY c' = mouseY c"
  using assms
proof (induction buf arbitrary: kept c)
  case Nil
  then show ?case by (simp add: flagged_def)
next
  case (Cons r buf)
  show ?case
  proof (cases "r \<in> set current")
    case True
    then have step: "hover_buffer (r # buf) current kept c = hover_buffer buf current (kept @ [r]) c"
      by (simp add: indexOf_minus1)
    from Cons.IH [OF Cons.prems, of "kept @ [r]"] obtain c' where
      r: "hover_buffer buf current (kept @ [r]) c = Returned c'"
         "mouseBuffer c' = (kept @ [r]) @ filter (\<lambda>r. r \<in> set current) buf"
         "trace (cenv c') = trace (cenv c) @
                concat (map (\<lambda>r. handler_call (heap c) ''mouseout'' r)
                          (filter (\<lambda>r. r \<notin> set current) buf))"
         "\<forall>r. events (heap c' r) = events (heap c r)"
         "\<forall>r. flagged c' r = (flagged c r \<and> \<not> (r \<in> set buf \<and> r \<notin> set current))"
         "mouseX c' = mouseX c \<and> mouseY c' = mouseY c"
      by blast
    have "\<forall>q. flagged c' q = (flagged c q \<and> \<not> (q \<in> set (r # buf) \<and> q \<notin> set current))"
      using r(5) True by auto
    with step r(1,2,3,4,6) True show ?thesis by simp
  next
    case False
    define c0 where "c0 = c\<lparr>cenv := (cenv c)\<lparr>trace := trace (cenv c) @ handler_call (heap c) ''mouseout'' r\<rparr>\<rparr>"
    define c1 where "c1 = set_mouseover r False c0"
    have step: "hover_buffer (r # buf) current kept c = hover_buffer buf current kept c1"
      using False fire_returns [OF Cons.prems, of "''mouseout''" r]
      by (simp add: indexOf_minus1 c1_def c0_def)
    have ev1: "\<forall>q. events (heap c1 q) = events (heap c q)"
      by (simp add: c1_def c0_def set_mouseover_def)
    have hr1: "handlers_return (heap c1)"
      using Cons.prems handlers_return_cong [OF ev1] by simp
    from Cons.IH [OF hr1, of kept] obtain c' where
      r: "hover_buffer buf current kept c1 = Returned c'"
         "mouseBuffer c' = kept @ filter (\<lambda>r. r \<in> set current) buf"
         "trace (cenv c') = trace (cenv c1) @
                concat (map (\<lambda>r. handler_call (heap c1) ''mouseout'' r)
                          (filter (\<lambda>r. r \<notin> set current) buf))"
         "\<forall>r. events (heap c' r) = events (heap c1 r)"
         "\<forall>r. flagged c' r = (flagged c1 r \<and> \<not> (r \<in> set buf \<and> r \<notin> set current))"
         "mouseX c' = mouseX c1 \<and> mouseY c' = mouseY c1"
      by blast
    have tr1: "trace (cenv c1) = trace (cenv c) @ handler_call (heap c) ''mouseout'' r"
      by (simp add: c1_def c0_def set_mouseover_def)
    have calls: "map (\<lambda>q. handler_call (heap c1) ''mouseout'' q) (filter (\<lambda>r. r \<notin> set current) buf)
        = map (\<lambda>q. handler_call (heap c) ''mouseout'' q) (filter (\<lambda>r. r \<notin> set current) buf)"
      using handler_call_cong [OF ev1] by simp
    have fl1: "\<forall>q. flagged c1 q = (flagged c q \<and> q \<noteq> r)"
      by (auto simp add: c1_def c0_def set_mouseover_def flagged_def)
    have "hover_buffer (r # buf) current kept c = Returned c'" using step r(1) by simp
    moreover have "mouseBuffer c' = kept @ filter (\<lambda>r. r \<in> set current) (r # buf)"
      using r(2) False by simp
    moreover have "trace (cenv c') = trace (cenv c) @
                concat (map (\<lambda>r. handler_call (heap c) ''mouseout'' r)
                          (filter (\<lambda>r. r \<notin> set current) (r # buf)))"
      using r(3) False tr1 calls by simp
    moreover have "\<forall>q. events (heap c' q) = events (heap c q)"
      using r(4) ev1 by simp
    moreover have "\<forall>q. flagged c' q = (flagged c q \<and> \<not> (q \<in> set (r # buf) \<and> q \<notin> set current))"
      using r(5) fl1 False by auto
    moreover have "mouseX c' = mouseX c \<and> mouseY c' = mouseY c"
      using r(6) by (simp add: c1_def c0_def set_mouseover_def)
    ultimately show ?thesis by blast
  qed
qed

lemma button_eq:
  "button = \<lparr>props = Primitive_defaults(''x'' := Num 0, ''y'' := Num 0, ''side'' := Num 10),
          animationBuffer = [],
          events = [(''click'', Returns 10), (''mouseover'', Returns 11),
                    (''mousemove'', Returns 12), (''mouseout'', Returns 13)],
          isInside = Some point_isInside, render = Some (Returns 0)\<rparr>"
  by (simp add: button_def Primitive_new_def loud_point_def no_calls_def)

lemma button_inside: "point_isInside (props button) (js_minus 1 (props button ''x'')) (js_minus 2 (props button ''y''))"
  by (simp add: button_eq point_isInside_def js_minus_def Primitive_defaults_def)

lemma hovered_button_inside:
  "point_isInside (props hovered_button) (js_minus 1 (props hovered_button ''x''))
     (js_minus 2 (props hovered_button ''y''))"
  by (simp add: hovered_button_def button_eq point_isInside_def js_minus_def Primitive_defaults_def)

lemma button_flag: "\<not> truthy (props button ''_mouseover'')"
  by (simp add: button_eq Primitive_defaults_def)

lemma button_isInside: "isInside button = Some point_isInside"
  by (simp add: button_eq)

lemma button_events:
  "events button = [(''click'', Returns 10), (''mouseover'', Returns 11),
                    (''mousemove'', Returns 12), (''mouseout'', Returns 13)]"
  by (simp add: button_eq)

text \<open>
  C3. As stated the claim fails when the registry holds a primitive twice: the query
  result then holds it twice, and a primitive that was not hovered gets "over" at its
  first occurrence and "move" at its second, in the same tick. What holds, on a tick
  where the pointer has moved, when the query returns, the registry holds no primitive
  twice, every \<^verbatim>\<open>_mouseover\<close> flag is truthy exactly for the primitives in the hover
  buffer (which the tick re-establishes) and the event handlers return: with H the hover
  buffer before the tick and \<open>current\<close> the query result, the handlers called are
  "mouseover" on the primitives of \<open>current\<close> not in H, "mouseout" on those of H not in
  \<open>current\<close> and "mousemove" on those of \<open>current\<close> in H (each on the primitives that
  have such a handler, in the order of the lists), and afterwards the hover buffer holds
  exactly the primitives of \<open>current\<close>, it has no duplicates if it had none, and the
  pointer position is recorded.
\<close>

theorem hover_diff:
  assumes moved: "mouseX c \<noteq> prev_mouseX c \<or> mouseY c \<noteq> prev_mouseY c"
      and query: "objectsUnder (heap c) (registry c) (mouseX c) (mouseY c) = Inr current"
      and dist: "distinct (registry c)"
      and flags: "\<forall>r. flagged c r = (r \<in> set (mouseBuffer c))"
      and quiet: "handlers_return (heap c)"
  shows "\<exists>c' evs. pointer_dispatch c = Returned c'
           \<and> trace (cenv c') = trace (cenv c) @ evs
           \<and> targets ''mouseover'' evs =
               filter (\<lambda>r. r \<notin> set (mouseBuffer c) \<and> handles (heap c) ''mouseover'' r) current
           \<and> targets ''mouseout'' evs =
               filter (\<lambda>r. r \<notin> set current \<and> handles (heap c) ''mouseout'' r) (mouseBuffer c)
           \<and> targets ''mousemove'' evs =
               filter (\<lambda>r. r \<in> set (mouseBuffer c) \<and> handles (heap c) ''mousemove'' r) current
           \<and> set (mouseBuffer c') = set current
           \<and> (\<forall>r. flagged c' r = (r \<in> set (mouseBuffer c')))
           \<and> (distinct (mouseBuffer c) \<longrightarrow> distinct (mouseBuffer c'))
           \<and> prev_mouseX c' = mouseX c \<and> prev_mouseY c' = mouseY c"
proof -
  let ?B = "mouseBuffer c"
  from objectsUnder_Inr [OF query] have cur: "current = filter (inside (heap c) (mouseX c) (mouseY c)) (registry c)"
    by simp
  with dist have dcur: "distinct current" by simp
  from hover_current_returns [OF dcur flags quiet] obtain c1 where
    one: "hover_current current c = Returned c1"
         "mouseBuffer c1 = ?B @ filter (\<lambda>r. r \<notin> set ?B) current"
         "trace (cenv c1) = trace (cenv c) @
                concat (map (\<lambda>r. handler_call (heap c)
                   (if r \<in> set ?B then ''mousemove'' else ''mouseover'') r) current)"
         "\<forall>r. events (heap c1 r) = events (heap c r)"
         "\<forall>r. flagged c1 r = (r \<in> set (mouseBuffer c1))"
         "mouseX c1 = mouseX c \<and> mouseY c1 = mouseY c"
    by blast
  have hr1: "handlers_return (heap c1)"
    using quiet handlers_return_cong [OF one(4)] by simp
  from hover_buffer_returns [OF hr1, of "mouseBuffer c1" current "[]"] obtain c2 where
    two: "hover_buffer (mouseBuffer c1) current [] c1 = Returned c2"
         "mouseBuffer c2 = [] @ filter (\<lambda>r. r \<in> set current) (mouseBuffer c1)"
         "trace (cenv c2) = trace (cenv c1) @
                concat (map (\<lambda>r. handler_call (heap c1) ''mouseout'' r)
                          (filter (\<lambda>r. r \<notin> set current) (mouseBuffer c1)))"
         "\<forall>r. events (heap c2 r) = events (heap c1 r)"
         "\<forall>r. flagged c2 r = (flagged c1 r \<and> \<not> (r \<in> set (mouseBuffer c1) \<and> r \<notin> set current))"
         "mouseX c2 = mouseX c1 \<and> mouseY c2 = mouseY c1"
    by blast
  define c' where "c' = c2\<lparr>prev_mouseX := mouseX c2, prev_mouseY := mouseY c2\<rparr>"
  define E1 where "E1 = concat (map (\<lambda>r. handler_call (heap c)
                   (if r \<in> set ?B then ''mousemove'' else ''mouseover'') r) current)"
  define E2 where "E2 = concat (map (\<lambda>r. handler_call (heap c) ''mouseout'' r)
                          (filter (\<lambda>r. r \<notin> set current) ?B))"
  have gone: "filter (\<lambda>r. r \<notin> set current) (mouseBuffer c1) = filter (\<lambda>r. r \<notin> set current) ?B"
    by (simp add: one(2))
  have calls2: "map (\<lambda>r. handler_call (heap c1) ''mouseout'' r) (filter (\<lambda>r. r \<notin> set current) ?B)
      = map (\<lambda>r. handler_call (heap c) ''mouseout'' r) (filter (\<lambda>r. r \<notin> set current) ?B)"
    using handler_call_cong [OF one(4)] by simp
  have run: "pointer_dispatch c = Returned c'"
    using moved query one(1) two(1) by (auto simp add: pointer_dispatch_def c'_def)
  have tr: "trace (cenv c') = trace (cenv c) @ (E1 @ E2)"
    using two(3) one(3) gone calls2 by (simp add: c'_def E1_def E2_def)
  have t1: "targets ''mouseover'' (E1 @ E2) =
      filter (\<lambda>r. r \<notin> set ?B \<and> handles (heap c) ''mouseover'' r) current"
    by (auto simp add: targets_append E1_def E2_def targets_calls intro: filter_cong)
  have t2: "targets ''mouseout'' (E1 @ E2) =
      filter (\<lambda>r. r \<notin> set current \<and> handles (heap c) ''mouseout'' r) ?B"
    by (auto simp add: targets_append E1_def E2_def targets_calls filter_filter intro: filter_cong)
  have t3: "targets ''mousemove'' (E1 @ E2) =
      filter (\<lambda>r. r \<in> set ?B \<and> handles (heap c) ''mousemove'' r) current"
    by (auto simp add: targets_append E1_def E2_def targets_calls intro: filter_cong)
  have buf: "set (mouseBuffer c') = set current"
    using two(2) one(2) by (auto simp add: c'_def)
  have inv: "\<forall>r. flagged c' r = (r \<in> set (mouseBuffer c'))"
    using two(5) one(5) two(2) by (auto simp add: c'_def flagged_def)
  have dbuf: "distinct (mouseBuffer c) \<longrightarrow> distinct (mouseBuffer c')"
    using two(2) one(2) dcur by (auto simp add: c'_def)
  have prev: "prev_mouseX c' = mouseX c \<and> prev_mouseY c' = mouseY c"
    using two(6) one(6) by (simp add: c'_def)
  from run tr t1 t2 t3 buf inv dbuf prev show ?thesis by blast
qed

theorem hover_diff_witness:
  "mouseX crowded \<noteq> prev_mouseX crowded
   \<and> objectsUnder (heap crowded) (registry crowded) (mouseX crowded) (mouseY crowded) = Inr [0, 1]
   \<and> distinct (registry crowded)
   \<and> mouseBuffer crowded = [1, 2]
   \<and> (\<exists>c' evs. pointer_dispatch crowded = Returned c'
           \<and> trace (cenv c') = trace (cenv crowded) @ evs
           \<and> targets ''mouseover'' evs = [0]
           \<and> targets ''mouseout'' evs = [2]
           \<and> targets ''mousemove'' evs = [1]
           \<and> set (mouseBuffer c') = {0, 1})"
proof -
  have moved: "mouseX crowded \<noteq> prev_mouseX crowded \<or> mouseY crowded \<noteq> prev_mouseY crowded"
    by (simp add: crowded_def)
  have query: "objectsUnder (heap crowded) (registry crowded) (mouseX crowded) (mouseY crowded) = Inr [0, 1]"
    using button_inside hovered_button_inside
    by (simp add: crowded_def objectsUnder_def button_isInside hovered_button_def)
  have dist: "distinct (registry crowded)" by (simp add: crowded_def)
  have flags: "\<forall>r. flagged crowded r = (r \<in> set (mouseBuffer crowded))"
    using button_flag by (auto simp add: flagged_def crowded_def hovered_button_def)
  have quiet: "handlers_return (heap crowded)"
    by (auto simp add: handlers_return_def crowded_def hovered_button_def button_events
        split: if_splits)
  have h: "handles (heap crowded) ''mouseover'' 0" "handles (heap crowded) ''mouseout'' 2"
    "handles (heap crowded) ''mousemove'' 1"
    by (simp_all add: handles_def crowded_def hovered_button_def button_events)
  have buf: "mouseBuffer crowded = [1, 2]" by (simp add: crowded_def)
  from hover_diff [OF moved query dist flags quiet] obtain c' evs where
    r: "pointer_dispatch crowded = Returned c'"
       "trace (cenv c') = trace (cenv crowded) @ evs"
       "targets ''mouseover'' evs =
               filter (\<lambda>r. r \<notin> set (mouseBuffer crowded) \<and> handles (heap crowded) ''mouseover'' r) [0, 1]"
       "targets ''mouseout'' evs =
               filter (\<lambda>r. r \<notin> set [0, 1] \<and> handles (heap crowded) ''mouseout'' r) (mouseBuffer crowded)"
       "targets ''mousemove'' evs =
               filter (\<lambda>r. r \<in> set (mouseBuffer crowded) \<and> handles (heap crowded) ''mousemove'' r) [0, 1]"
       "set (mouseBuffer c') = set [0, 1]"
    by blast
  from r(3) h(1) have t1: "targets ''mouseover'' evs = [0]" by (simp add: buf)
  from r(4) h(2) have t2: "targets ''mouseout'' evs = [2]" by (simp add: buf)
  from r(5) h(3) have t3: "targets ''mousemove'' evs = [1]" by (simp add: buf)
  from r(6) have t4: "set (mouseBuffer c') = {0, 1}" by auto
  have mx: "mouseX crowded \<noteq> prev_mouseX crowded" by (simp add: crowded_def)
  from mx query dist buf r(1,2) t1 t2 t3 t4 show ?thesis by blast
qed

text \<open>
  The claim fails on \<open>doubled\<close>: the hover buffer is empty before the tick, so no
  primitive is in both hover sets, and "mousemove" is called on primitive 0.
\<close>

theorem hover_duplicate_counterexample:
  "mouseBuffer doubled = []
   \<and> objectsUnder (heap doubled) (registry doubled) (mouseX doubled) (mouseY doubled) = Inr [0, 0]
   \<and> trace (cenv (state_of (pointer_dispatch doubled)))
       = [Handler ''mouseover'' 0 (Returns 11), Handler ''mousemove'' 0 (Returns 12)]
   \<and> targets ''mousemove'' (trace (cenv (state_of (pointer_dispatch doubled)))) = [0]"
proof -
  have u: "objectsUnder (heap doubled) (registry doubled) (mouseX doubled) (mouseY doubled) = Inr [0, 0]"
    using button_inside by (simp add: doubled_def objectsUnder_def button_isInside)
  have t: "trace (cenv (state_of (pointer_dispatch doubled)))
       = [Handler ''mouseover'' 0 (Returns 11), Handler ''mousemove'' 0 (Returns 12)]"
    using u
    by (simp add: pointer_dispatch_def doubled_def fire_def button_events button_flag
        set_mouseover_def indexOf_def no_calls_def)
  show ?thesis using u t by (simp add: doubled_def)
qed

section \<open>Exceptions in Registry.update, Registry.render and the engine tick\<close>

lemma visit_append: "visit m (xs @ ys) c = and_then (visit m xs c) (visit m ys)"
proof (induction xs arbitrary: c)
  case Nil
  show ?case by simp
next
  case (Cons r xs)
  show ?case
  proof (cases "m r (heap c r) (cenv c)")
    case (Returned s)
    then show ?thesis by (cases s) (simp add: Cons.IH)
  next
    case (Thrown err s)
    then show ?thesis by (cases s) simp
  qed
qed

lemma visit_heap_elsewhere:
  "q \<notin> set xs \<Longrightarrow> heap (state_of (visit m xs c)) q = heap c q"
proof (induction xs arbitrary: c)
  case Nil
  show ?case by simp
next
  case (Cons r xs)
  then have qr: "q \<noteq> r" and qxs: "q \<notin> set xs" by simp_all
  show ?case
  proof (cases "m r (heap c r) (cenv c)")
    case (Returned s)
    obtain p e where s: "s = (p, e)" by (cases s)
    show ?thesis using Returned s qr Cons.IH [OF qxs, of "c\<lparr>heap := (heap c)(r := p), cenv := e\<rparr>"]
      by simp
  next
    case (Thrown err s)
    obtain p e where s: "s = (p, e)" by (cases s)
    show ?thesis using Thrown s qr by simp
  qed
qed

lemma visit_stops:
  assumes "visit m (rev behind) c = Returned c1"
      and "m r (heap c1 r) (cenv c1) = Thrown err (p, e)"
  shows "visit m (rev (front @ r # behind)) c
           = Thrown err (c1\<lparr>heap := (heap c1)(r := p), cenv := e\<rparr>)"
proof -
  have "visit m (rev (front @ r # behind)) c
      = and_then (visit m (rev behind) c) (visit m (r # rev front))"
    using visit_append [of m "rev behind" "r # rev front" c] by simp
  then show ?thesis using assms by simp
qed

lemma engine_kept_refl: "engine_kept c c"
  by (simp add: engine_kept_def)

lemma engine_kept_trans: "engine_kept a b \<Longrightarrow> engine_kept b c \<Longrightarrow> engine_kept a c"
  by (simp add: engine_kept_def)

lemma and_then_kept:
  "engine_kept c (state_of out) \<Longrightarrow> (\<And>s. engine_kept s (state_of (f s))) \<Longrightarrow>
   engine_kept c (state_of (and_then out f))"
  by (cases out) (auto intro: engine_kept_trans)

lemma fire_kept: "engine_kept c (state_of (fire name r c))"
  by (simp add: fire_def engine_kept_def Let_def split: option.splits)

lemma click_loop_kept: "engine_kept c (state_of (click_loop rs c))"
proof (induction rs arbitrary: c)
  case Nil
  show ?case by (simp add: engine_kept_refl)
next
  case (Cons r rs)
  show ?case using fire_kept Cons.IH by (simp add: and_then_kept)
qed

lemma hover_current_kept: "engine_kept c (state_of (hover_current rs c))"
proof (induction rs arbitrary: c)
  case Nil
  show ?case by (simp add: engine_kept_refl)
next
  case (Cons r rs)
  have a: "\<And>s. engine_kept s
      (state_of (hover_current rs ((set_mouseover r True s)\<lparr>mouseBuffer := mouseBuffer s @ [r]\<rparr>)))"
  proof -
    fix s
    have "engine_kept s ((set_mouseover r True s)\<lparr>mouseBuffer := mouseBuffer s @ [r]\<rparr>)"
      by (simp add: engine_kept_def set_mouseover_def)
    with Cons.IH show "engine_kept s
      (state_of (hover_current rs ((set_mouseover r True s)\<lparr>mouseBuffer := mouseBuffer s @ [r]\<rparr>)))"
      by (blast intro: engine_kept_trans)
  qed
  show ?case using fire_kept Cons.IH a by (simp add: and_then_kept)
qed

lemma hover_buffer_kept: "engine_kept c (state_of (hover_buffer buf current kept c))"
proof (induction buf arbitrary: kept c)
  case Nil
  show ?case by (simp add: engine_kept_def)
next
  case (Cons r buf)
  have a: "\<And>s. engine_kept s (state_of (hover_buffer buf current kept (set_mouseover r False s)))"
  proof -
    fix s
    have "engine_kept s (set_mouseover r False s)"
      by (simp add: engine_kept_def set_mouseover_def)
    with Cons.IH show "engine_kept s (state_of (hover_buffer buf current kept (set_mouseover r False s)))"
      by (blast intro: engine_kept_trans)
  qed
  show ?case using fire_kept Cons.IH a by (simp add: and_then_kept)
qed

lemma pointer_dispatch_kept: "engine_kept c (state_of (pointer_dispatch c))"
proof (cases "mouseX c \<noteq> prev_mouseX c \<or> mouseY c \<noteq> prev_mouseY c")
  case False
  then show ?thesis by (simp add: pointer_dispatch_def engine_kept_refl)
next
  case True
  show ?thesis
  proof (cases "objectsUnder (heap c) (registry c) (mouseX c) (mouseY c)")
    case (Inl e)
    with True show ?thesis by (simp add: pointer_dispatch_def engine_kept_refl)
  next
    case (Inr current)
    have "engine_kept c (state_of (and_then
               (and_then (hover_current current c)
                  (\<lambda>c1. hover_buffer (mouseBuffer c1) current [] c1))
               (\<lambda>c2. Returned (c2\<lparr>prev_mouseX := mouseX c2, prev_mouseY := mouseY c2\<rparr>))))"
      by (intro and_then_kept hover_current_kept hover_buffer_kept) (simp add: engine_kept_def)
    with True Inr show ?thesis by (simp add: pointer_dispatch_def)
  qed
qed

lemma visit_kept: "engine_kept c (state_of (visit m xs c))"
proof (induction xs arbitrary: c)
  case Nil
  show ?case by (simp add: engine_kept_refl)
next
  case (Cons r xs)
  show ?case
  proof (cases "m r (heap c r) (cenv c)")
    case (Returned s)
    obtain p e where s: "s = (p, e)" by (cases s)
    have "engine_kept c (c\<lparr>heap := (heap c)(r := p), cenv := e\<rparr>)"
      by (simp add: engine_kept_def)
    with Cons.IH [of "c\<lparr>heap := (heap c)(r := p), cenv := e\<rparr>"] Returned s show ?thesis
      by (auto intro: engine_kept_trans)
  next
    case (Thrown err s)
    obtain p e where s: "s = (p, e)" by (cases s)
    show ?thesis using Thrown s by (simp add: engine_kept_def)
  qed
qed

lemma Engine_tick_schedules:
  "running c \<Longrightarrow> scheduled (state_of (Engine_tick c)) = scheduled c + 1
     \<and> running (state_of (Engine_tick c))"
proof -
  assume run: "running c"
  let ?c1 = "c\<lparr>scheduled := scheduled c + 1\<rparr>"
  have "engine_kept ?c1 (state_of (and_then (and_then (pointer_dispatch ?c1) Registry_update)
      Aristochart_render))"
    by (intro and_then_kept pointer_dispatch_kept)
       (simp_all add: Registry_update_def Aristochart_render_def Registry_render_def visit_kept)
  then show ?thesis using run
    by (simp add: Engine_tick_def Aristochart_update_def engine_kept_def)
qed

lemma faulty_eq:
  "faulty = dot\<lparr>animationBuffer :=
      [\<lparr>frame = 0, length_anim = 0, callback = Some (Throws 4), property = ''x'',
         initialValue = 0, range_anim = 5, easing = easeInQuad\<rparr>]\<rparr>"
proof -
  have undef: "Easing ''undefined'' = None"
    by (simp add: Easing_def Easing_table_def)
  show ?thesis
    by (simp add: faulty_def animate_def easing_given_def callback_given_def easing_or_default_def
        undef dot_x dot_buf)
qed

lemma faulty_update:
  "Primitive_update 1 faulty no_calls =
     Thrown (UserThrow (Throws 4))
       (faulty, \<lparr>called = (\<lambda>f. False), trace = [Completion 1 (Throws 4)]\<rparr>)"
  by (simp add: faulty_eq Primitive_update_def no_calls_def Let_def)

text \<open>
  C9. As stated the claim fails: nothing in the program catches an exception. What
  holds: when the \<^verbatim>\<open>update\<close> (or \<^verbatim>\<open>render\<close>) of the primitive at some registry index
  throws, after the primitives at the higher indices were visited, \<^verbatim>\<open>Registry.update\<close>
  (or \<^verbatim>\<open>Registry.render\<close>) throws the same exception and stops there: the state is the
  one at the throw, and the primitives at the lower indices are not visited. The engine
  tick asks the host for the next frame before it calls update and render, so a running
  engine has scheduled its next tick whether or not the tick throws.
\<close>

theorem exception_halts_traversal:
  assumes "registry c = front @ r # behind"
  shows "(visit Primitive_update (rev behind) c = Returned c1
            \<and> Primitive_update r (heap c1 r) (cenv c1) = Thrown err (p, e) \<longrightarrow>
            Registry_update c = Thrown err (c1\<lparr>heap := (heap c1)(r := p), cenv := e\<rparr>)
          \<and> (\<forall>q. q \<in> set front \<and> q \<notin> set (r # behind) \<longrightarrow>
                 heap (state_of (Registry_update c)) q = heap c q))
       \<and> (visit Primitive_render (rev behind) c = Returned c1
            \<and> Primitive_render r (heap c1 r) (cenv c1) = Thrown err (p, e) \<longrightarrow>
            Registry_render c = Thrown err (c1\<lparr>heap := (heap c1)(r := p), cenv := e\<rparr>))
       \<and> (running c \<longrightarrow> scheduled (state_of (Engine_tick c)) = scheduled c + 1
                          \<and> running (state_of (Engine_tick c)))"
proof (intro conjI impI allI)
  assume a: "visit Primitive_update (rev behind) c = Returned c1
            \<and> Primitive_update r (heap c1 r) (cenv c1) = Thrown err (p, e)"
  then show halt: "Registry_update c = Thrown err (c1\<lparr>heap := (heap c1)(r := p), cenv := e\<rparr>)"
    using assms visit_stops [of Primitive_update behind c c1 r err p e front]
    by (simp add: Registry_update_def)
  fix q
  assume q: "q \<in> set front \<and> q \<notin> set (r # behind)"
  then have "q \<notin> set (rev behind)" by simp
  from visit_heap_elsewhere [OF this, of Primitive_update c] a have "heap c1 q = heap c q"
    by simp
  with halt q show "heap (state_of (Registry_update c)) q = heap c q" by simp
next
  assume "visit Primitive_render (rev behind) c = Returned c1
            \<and> Primitive_render r (heap c1 r) (cenv c1) = Thrown err (p, e)"
  then show "Registry_render c = Thrown err (c1\<lparr>heap := (heap c1)(r := p), cenv := e\<rparr>)"
    using assms visit_stops [of Primitive_render behind c c1 r err p e front]
    by (simp add: Registry_render_def)
next
  assume "running c"
  then show "scheduled (state_of (Engine_tick c)) = scheduled c + 1"
    and "running (state_of (Engine_tick c))"
    using Engine_tick_schedules by simp_all
qed

theorem exception_halts_traversal_witness:
  "registry stage = [0] @ 1 # []
   \<and> visit Primitive_update (rev []) stage = Returned stage
   \<and> Primitive_update 1 (heap stage 1) (cenv stage) =
       Thrown (UserThrow (Throws 4))
         (faulty, \<lparr>called = (\<lambda>f. False), trace = [Completion 1 (Throws 4)]\<rparr>)
   \<and> Registry_update stage =
       Thrown (UserThrow (Throws 4))
         (stage\<lparr>heap := (heap stage)(1 := faulty),
                 cenv := \<lparr>called = (\<lambda>f. False), trace = [Completion 1 (Throws 4)]\<rparr>\<rparr>)
   \<and> heap (state_of (Registry_update stage)) 0 = heap stage 0
   \<and> running stage
   \<and> scheduled (state_of (Engine_tick stage)) = scheduled stage + 1"
proof -
  have reg: "registry stage = [0] @ 1 # []" by (simp add: stage_def)
  have v: "visit Primitive_update (rev []) stage = Returned stage" by simp
  have u: "Primitive_update 1 (heap stage 1) (cenv stage) =
       Thrown (UserThrow (Throws 4))
         (faulty, \<lparr>called = (\<lambda>f. False), trace = [Completion 1 (Throws 4)]\<rparr>)"
    using faulty_update by (simp add: stage_def)
  have run: "running stage" by (simp add: stage_def)
  from exception_halts_traversal [OF reg, of stage "UserThrow (Throws 4)" faulty
      "\<lparr>called = (\<lambda>f. False), trace = [Completion 1 (Throws 4)]\<rparr>"] v u run reg
  show ?thesis by simp
qed

text \<open>
  The claim fails on \<open>stage\<close>: the update of primitive 1 throws, \<^verbatim>\<open>Registry.update\<close>
  and the engine tick throw with it, and primitive 0, still to be visited, keeps its two
  unadvanced tasks.
\<close>

theorem exception_halts_traversal_counterexample:
  "\<not> returned (Registry_update stage)
   \<and> trace (cenv (state_of (Registry_update stage))) = [Completion 1 (Throws 4)]
   \<and> heap (state_of (Registry_update stage)) 0 = twice
   \<and> \<not> returned (Engine_tick stage)"
proof -
  have h1: "heap stage (Suc 0) = faulty" and h0: "heap stage 0 = twice"
    and e: "cenv stage = no_calls" and reg: "registry stage = [0, 1]"
    by (simp_all add: stage_def)
  have u: "Registry_update stage =
       Thrown (UserThrow (Throws 4))
         (stage\<lparr>heap := (heap stage)(1 := faulty),
                 cenv := \<lparr>called = (\<lambda>f. False), trace = [Completion 1 (Throws 4)]\<rparr>\<rparr>)"
    using faulty_update by (simp add: Registry_update_def reg h1 e)
  have t: "Engine_tick stage =
       Thrown (UserThrow (Throws 4))
         (stage\<lparr>scheduled := 1, heap := (heap stage)(1 := faulty),
                 cenv := \<lparr>called = (\<lambda>f. False), trace = [Completion 1 (Throws 4)]\<rparr>\<rparr>)"
    using faulty_update
    by (simp add: Engine_tick_def Aristochart_update_def pointer_dispatch_def
        Registry_update_def stage_def)
  show ?thesis using u t h0 by simp
qed

section \<open>Aristochart.Error and the DEBUG flag\<close>

lemma Aristochart_Error_off: "Aristochart_Error False msg = Inr ()"
  by (simp add: Aristochart_Error_def)

lemma Aristochart_Error_on: "Aristochart_Error True msg = Inl msg"
  by (simp add: Aristochart_Error_def)

lemma Aristochart_Primitive_off:
  "Aristochart_Primitive False style obj = Inr \<lparr>kind_style = style, kind_obj = obj\<rparr>"
  by (simp add: Aristochart_Primitive_def Aristochart_Error_def)

lemma animate_off_returns: "returned (animate False properties frames cb_in easing_in this)"
  by (simp add: animate_def Let_def Aristochart_Error_def animate_loop_off)

lemma validateData_line_off: "validateData False ''line'' raw = Inr ()"
  by (simp add: validateData_def Aristochart_Error_def)

text \<open>
  C10. The checks on a primitive definition, on the properties and the easing name of
  \<^verbatim>\<open>animate\<close> and on line data do go through \<^verbatim>\<open>Aristochart.Error\<close> and return
  normally with DEBUG false (the lemmas above). The check on pie data does not: its
  condition calls \<^verbatim>\<open>Object.key\<close>, which does not exist, so validating pie data
  throws a TypeError, with DEBUG false as well as true, for the invalid empty data
  \<^verbatim>\<open>{}\<close> and for valid data alike.
\<close>

theorem validateData_pie_TypeError:
  "validateData False ''pie'' [] = Inl TypeError
   \<and> validateData False ''pie'' [(''apples'', Num 3), (''pears'', Num 5)] = Inl TypeError
   \<and> validateData True ''pie'' [(''apples'', Num 3), (''pears'', Num 5)] = Inl TypeError"
  by (simp add: validateData_def)

end
